theory Spec2Isabelle
  imports Main "HOL-Library.Char_ord" "HOL-Library.List_Lexorder" "HOL-Library.Multiset"
begin

section \<open>Python string primitives used by the packing-list code\<close>

text \<open>
  A Python \<open>str\<close> is modelled as a \<^typ>\<open>string\<close>: one \<^typ>\<open>char\<close> per character, so the
  model covers the characters with code point below 256. Within that range the
  definitions below follow CPython: \<open>str.isspace\<close>, \<open>str.strip\<close>, \<open>str.ljust\<close>,
  slicing, \<open>str.zfill\<close>, \<open>str(int)\<close> and \<open>int(str)\<close>.
\<close>

datatype py_error = ValueError | IndexError | KeyError | IOError

definition py_isspace :: "char \<Rightarrow> bool" where
  "py_isspace c = (of_char c \<in> {9, 10, 11, 12, 13, 28, 29, 30, 31, 32, 133, 160 :: nat})"

definition py_isdigit :: "char \<Rightarrow> bool" where
  "py_isdigit c = (48 \<le> (of_char c :: nat) \<and> (of_char c :: nat) \<le> 57)"

definition digit_value :: "char \<Rightarrow> nat" where
  "digit_value c = of_char c - 48"

definition digit_char :: "nat \<Rightarrow> char" where
  "digit_char d = char_of (48 + d)"

definition py_lstrip :: "string \<Rightarrow> string" where
  "py_lstrip s = dropWhile py_isspace s"

definition py_rstrip :: "string \<Rightarrow> string" where
  "py_rstrip s = rev (dropWhile py_isspace (rev s))"

definition py_strip :: "string \<Rightarrow> string" where
  "py_strip s = py_rstrip (py_lstrip s)"

text \<open>\<open>line.rstrip('\n\r')\<close>: strips trailing line feeds and carriage returns only.\<close>

definition rstrip_newlines :: "string \<Rightarrow> string" where
  "rstrip_newlines s = rev (dropWhile (\<lambda>c. of_char c \<in> {10, 13 :: nat}) (rev s))"

text \<open>\<open>s[a:b]\<close> for \<open>0 \<le> a \<le> b\<close>: Python clamps both bounds to the length.\<close>

definition slice :: "nat \<Rightarrow> nat \<Rightarrow> string \<Rightarrow> string" where
  "slice a b s = take (b - a) (drop a s)"

definition py_ljust :: "nat \<Rightarrow> string \<Rightarrow> string" where
  "py_ljust w s = s @ replicate (w - length s) (CHR '' '')"

text \<open>\<open>s.zfill(w)\<close>: zeros go after a leading sign; a string of width \<open>w\<close> or more is unchanged.\<close>

definition py_zfill :: "nat \<Rightarrow> string \<Rightarrow> string" where
  "py_zfill w s =
     (if w \<le> length s then s
      else (case s of
              c # cs \<Rightarrow>
                if c = CHR ''+'' \<or> c = CHR ''-''
                then c # replicate (w - length s) (CHR ''0'') @ cs
                else replicate (w - length s) (CHR ''0'') @ s
            | [] \<Rightarrow> replicate w (CHR ''0'')))"

text \<open>\<open>str(n)\<close> for an integer: decimal digits, most significant first, \<open>-\<close> for a negative.\<close>

fun nat_digits :: "nat \<Rightarrow> string" where
  "nat_digits n = (if n < 10 then [digit_char n] else nat_digits (n div 10) @ [digit_char (n mod 10)])"

declare nat_digits.simps [simp del]

definition py_str_int :: "int \<Rightarrow> string" where
  "py_str_int i = (if i < 0 then CHR ''-'' # nat_digits (nat (- i)) else nat_digits (nat i))"

text \<open>
  \<open>int(s)\<close> in base 10: surrounding whitespace is stripped, one sign is allowed, then
  decimal digits in which single underscores may separate digits. Anything else raises
  \<open>ValueError\<close>, here \<open>None\<close>. The flag of \<open>parse_digits\<close> records that the previous
  character was a digit. (CPython also refuses a string of more than 4300 digits; the
  fields decoded below have at most six characters.)
\<close>

fun parse_digits :: "nat \<Rightarrow> bool \<Rightarrow> string \<Rightarrow> nat option" where
  "parse_digits acc prev [] = (if prev then Some acc else None)"
| "parse_digits acc prev (c # cs) =
     (if py_isdigit c then parse_digits (10 * acc + digit_value c) True cs
      else if c = CHR ''_'' \<and> prev then parse_digits acc False cs
      else None)"

definition py_int :: "string \<Rightarrow> int option" where
  "py_int s =
     (case py_strip s of
        [] \<Rightarrow> None
      | c # cs \<Rightarrow>
          if c = CHR ''-'' then map_option (\<lambda>n. - int n) (parse_digits 0 False cs)
          else if c = CHR ''+'' then map_option int (parse_digits 0 False cs)
          else map_option int (parse_digits 0 False (c # cs)))"

text \<open>The number that a string of decimal digits denotes, continuing from \<open>acc\<close>.\<close>

definition digits_value :: "nat \<Rightarrow> string \<Rightarrow> nat" where
  "digits_value acc ds = foldl (\<lambda>a c. 10 * a + digit_value c) acc ds"

section \<open>Data model of \<open>dat_parser_simple.py\<close>\<close>

record OrderRecord =
  bank_id :: string
  order_id :: string
  priority :: string
  sort_code :: string
  account_number :: string
  check_digit :: string
  cheque_voucher_digits :: string
  credits_voucher_digits :: string
  book_style :: string
  number_of_books :: int
  cheque_start_serial :: string
  credits_start_serial :: string
  personalization :: string
  branch_title :: string
  branch_address :: string
  signature_required :: string
  beneficiary_name :: string
  delivery_branch_code :: string
  delivery_branch_name :: string

text \<open>The dictionary built by \<open>_order_to_dict\<close>, one field per key.\<close>

record ExpandedBook =
  eb_book_style :: string
  eb_book_type_description :: string
  eb_currency :: string
  eb_leaves :: int
  eb_branch_code :: string
  eb_account_number :: string
  eb_serial_number :: string
  eb_account_name :: string
  eb_branch_title :: string
  eb_branch_address :: string
  eb_delivery_branch_code :: string
  eb_delivery_branch_name :: string
  eb_number_of_books :: int

text \<open>\<open>BOOK_STYLES\<close>: style code to (type, currency, leaves).\<close>

definition BOOK_STYLES :: "(string \<times> (string \<times> string \<times> int)) list" where
  "BOOK_STYLES =
     [(''01'', (''Personal KES'', ''KES'', 50)),
      (''02'', (''Corporate KES'', ''KES'', 100)),
      (''25'', (''South African Rand Small'', ''ZAR'', 50)),
      (''45'', (''South African Rand Large'', ''ZAR'', 100)),
      (''31'', (''Sterling Pound Small'', ''GBP'', 50)),
      (''51'', (''Sterling Pound Large'', ''GBP'', 100)),
      (''32'', (''USA Dollar Small'', ''USD'', 50)),
      (''52'', (''USA Dollar Large'', ''USD'', 100)),
      (''40'', (''EURO Small'', ''EUR'', 50)),
      (''69'', (''EURO Large'', ''EUR'', 100)),
      (''71'', (''KES Banker's Cheques'', ''KES'', 100)),
      (''72'', (''USD Banker's Cheques'', ''USD'', 100)),
      (''73'', (''GBP Banker's Cheques'', ''GBP'', 100)),
      (''74'', (''EUR Banker's Cheques'', ''EUR'', 100))]"

definition SERIAL_INCREMENTS :: "(string \<times> int) list" where
  "SERIAL_INCREMENTS =
     [(''01'', 50), (''02'', 100), (''25'', 50), (''45'', 100), (''31'', 50), (''51'', 100),
      (''32'', 50), (''52'', 100), (''40'', 50), (''69'', 100), (''71'', 100), (''72'', 100),
      (''73'', 100), (''74'', 100)]"

text \<open>\<open>self.SERIAL_INCREMENTS.get(book_style, 50)\<close>\<close>

definition serial_increment :: "string \<Rightarrow> int" where
  "serial_increment style = (case map_of SERIAL_INCREMENTS style of Some i \<Rightarrow> i | None \<Rightarrow> 50)"

section \<open>\<open>DATFileParser._parse_order_record\<close>\<close>

text \<open>
  The line is padded to 210 characters when shorter. The only statement of the
  \<open>try\<close> block that can raise is \<open>int(num_books_str)\<close>; its \<open>ValueError\<close> is caught and
  the method returns \<open>None\<close>.
\<close>

definition parse_order_record :: "string \<Rightarrow> OrderRecord option" where
  "parse_order_record line0 =
     (let line = (if length line0 < 210 then py_ljust 210 line0 else line0);
          num_books_str = py_strip (slice 26 30 line)
      in case (if num_books_str \<noteq> [] then py_int num_books_str else Some 1) of
           None \<Rightarrow> None
         | Some num_books \<Rightarrow> Some
             \<lparr> bank_id = py_strip (slice 0 2 line),
               order_id = py_strip (slice 2 3 line),
               priority = py_strip (slice 3 4 line),
               sort_code = py_strip (slice 4 9 line),
               account_number = py_strip (slice 9 19 line),
               check_digit = py_strip (slice 19 20 line),
               cheque_voucher_digits = py_strip (slice 20 22 line),
               credits_voucher_digits = py_strip (slice 22 24 line),
               book_style = py_strip (slice 24 26 line),
               number_of_books = num_books,
               cheque_start_serial = py_strip (slice 30 36 line),
               credits_start_serial = py_strip (slice 36 42 line),
               personalization = py_strip (slice 42 78 line),
               branch_title = py_strip (slice 78 108 line),
               branch_address = py_strip (slice 108 138 line),
               signature_required = py_strip (slice 138 139 line),
               beneficiary_name = py_strip (slice 139 169 line),
               delivery_branch_code = py_strip (slice 169 174 line),
               delivery_branch_name = py_strip (slice 174 210 line) \<rparr>)"

section \<open>\<open>DATFileParser._order_to_dict\<close> and \<open>_expand_orders_with_books\<close>\<close>

definition order_to_dict :: "OrderRecord \<Rightarrow> string \<Rightarrow> ExpandedBook" where
  "order_to_dict ord serial =
     (let book_info = map_of BOOK_STYLES (book_style ord)
      in \<lparr> eb_book_style = book_style ord,
           eb_book_type_description = (case book_info of Some (t, c, l) \<Rightarrow> t | None \<Rightarrow> ''Unknown''),
           eb_currency = (case book_info of Some (t, c, l) \<Rightarrow> c | None \<Rightarrow> ''KES''),
           eb_leaves = (case book_info of Some (t, c, l) \<Rightarrow> l | None \<Rightarrow> 50),
           eb_branch_code = sort_code ord,
           eb_account_number = account_number ord,
           eb_serial_number = serial,
           eb_account_name = py_strip (personalization ord),
           eb_branch_title = py_strip (branch_title ord),
           eb_branch_address = py_strip (branch_address ord),
           eb_delivery_branch_code = delivery_branch_code ord,
           eb_delivery_branch_name = py_strip (delivery_branch_name ord),
           eb_number_of_books = number_of_books ord \<rparr>)"

text \<open>
  The inner loop \<open>for book_num in range(1, order.number_of_books)\<close>: the last argument
  counts the iterations left, \<open>current_serial\<close> is threaded through them.
\<close>

fun additional_books :: "OrderRecord \<Rightarrow> int \<Rightarrow> int \<Rightarrow> nat \<Rightarrow> ExpandedBook list" where
  "additional_books ord increment current_serial 0 = []"
| "additional_books ord increment current_serial (Suc k) =
     (let current_serial' = current_serial + increment;
          new_serial = py_zfill 6 (py_str_int current_serial')
      in order_to_dict ord new_serial # additional_books ord increment current_serial' k)"

text \<open>
  One pass of the outer loop body, as the list of books it appends to \<open>expanded\<close>.
  \<open>int(order.cheque_start_serial)\<close> is not inside any \<open>try\<close>: its \<open>ValueError\<close> leaves
  the method.
\<close>

definition expand_order :: "OrderRecord \<Rightarrow> py_error + ExpandedBook list" where
  "expand_order ord =
     (let increment = serial_increment (book_style ord);
          first = order_to_dict ord (cheque_start_serial ord)
      in case py_int (cheque_start_serial ord) of
           None \<Rightarrow> Inl ValueError
         | Some current_serial \<Rightarrow>
             Inr (first # additional_books ord increment current_serial
                            (nat (number_of_books ord - 1))))"

fun expand_loop :: "ExpandedBook list \<Rightarrow> OrderRecord list \<Rightarrow> py_error + ExpandedBook list" where
  "expand_loop expanded [] = Inr expanded"
| "expand_loop expanded (ord # ords) =
     (case expand_order ord of
        Inl e \<Rightarrow> Inl e
      | Inr books \<Rightarrow> expand_loop (expanded @ books) ords)"

definition expand_orders_with_books :: "OrderRecord list \<Rightarrow> py_error + ExpandedBook list" where
  "expand_orders_with_books ords = expand_loop [] ords"

text \<open>The \<open>total_books\<close> entry of \<open>get_file_metadata\<close>.\<close>

definition total_books :: "OrderRecord list \<Rightarrow> int" where
  "total_books ords = sum_list (map number_of_books ords)"

definition total_orders :: "OrderRecord list \<Rightarrow> nat" where
  "total_orders ords = length ords"

section \<open>\<open>DATFileParser\<close>: state, order number, \<open>parse_file\<close>, metadata\<close>

text \<open>The instance attributes set by \<open>__init__\<close> and mutated by the methods.\<close>

record parser =
  orders :: "OrderRecord list"
  filename :: string
  extracted_order_number :: string

definition new_parser :: parser where
  "new_parser = \<lparr> orders = [], filename = [], extracted_order_number = [] \<rparr>"

text \<open>The fields of \<open>datetime.now()\<close> that the code formats.\<close>

record clock =
  year :: nat
  month :: nat
  day :: nat
  hour :: nat

text \<open>\<open>%m\<close>, \<open>%d\<close>, \<open>%H\<close>: two digits, zero-padded; \<open>%Y\<close>: four digits.\<close>

definition two_digits :: "nat \<Rightarrow> string" where
  "two_digits n = py_zfill 2 (py_str_int (int n))"

definition strftime_mdH :: "clock \<Rightarrow> string" where
  "strftime_mdH now = two_digits (month now) @ two_digits (day now) @ two_digits (hour now)"

definition strftime_Ymd :: "clock \<Rightarrow> string" where
  "strftime_Ymd now =
     py_zfill 4 (py_str_int (int (year now))) @ ''-'' @ two_digits (month now) @ ''-'' @
     two_digits (day now)"

text \<open>\<open>os.path.basename\<close> on a POSIX path: what follows the last slash.\<close>

definition basename :: "string \<Rightarrow> string" where
  "basename p = rev (takeWhile (\<lambda>c. c \<noteq> CHR ''/'') (rev p))"

text \<open>
  \<open>re.search(r'KCB-(\d+)', filename, re.IGNORECASE)\<close>: the leftmost position at
  which the letters (in either case), the hyphen and at least one digit follow; group 1
  is the whole run of digits there, the quantifier being greedy.
\<close>


definition match_kcb_at :: "string \<Rightarrow> string option" where
  "match_kcb_at s =
     (case s of
        k # c # b # h # rest \<Rightarrow>
          if (k = CHR ''K'' \<or> k = CHR ''k'') \<and> (c = CHR ''C'' \<or> c = CHR ''c'') \<and>
             (b = CHR ''B'' \<or> b = CHR ''b'') \<and> h = CHR ''-'' \<and>
             takeWhile py_isdigit rest \<noteq> []
          then Some (takeWhile py_isdigit rest) else None
      | _ \<Rightarrow> None)"

fun search_kcb :: "string \<Rightarrow> string option" where
  "search_kcb [] = None"
| "search_kcb (c # cs) =
     (case match_kcb_at (c # cs) of Some g \<Rightarrow> Some g | None \<Rightarrow> search_kcb cs)"

text \<open>
  \<open>re.search(r'(\d{3,6})', filename)\<close>: the leftmost position followed by at least
  three digits; the group takes up to six of the digits there.
\<close>

definition match_digits_at :: "string \<Rightarrow> string option" where
  "match_digits_at s =
     (let d = take 6 (takeWhile py_isdigit s) in if 3 \<le> length d then Some d else None)"

fun search_digits :: "string \<Rightarrow> string option" where
  "search_digits [] = None"
| "search_digits (c # cs) =
     (case match_digits_at (c # cs) of Some g \<Rightarrow> Some g | None \<Rightarrow> search_digits cs)"

definition extract_order_number_from_filename :: "clock \<Rightarrow> parser \<Rightarrow> string \<Rightarrow> parser \<times> string" where
  "extract_order_number_from_filename now p file_path =
     (let fname = basename file_path;
          p' = p\<lparr>filename := fname\<rparr>
      in case search_kcb fname of
           Some g \<Rightarrow> (p', py_zfill 6 g)
         | None \<Rightarrow>
             (case search_digits fname of
                Some g \<Rightarrow> (p', py_zfill 6 g)
              | None \<Rightarrow> (p', py_zfill 6 (strftime_mdH now))))"

text \<open>
  The loop of \<open>parse_file\<close> over the lines, appending to \<open>self.orders\<close>: blank lines
  are skipped, and only a line whose character at index 2 is \<open>1\<close> is decoded.
\<close>

fun parse_lines :: "OrderRecord list \<Rightarrow> string list \<Rightarrow> OrderRecord list" where
  "parse_lines ords [] = ords"
| "parse_lines ords (line # lines) =
     (if py_strip line = [] then parse_lines ords lines
      else if 3 \<le> length line \<and> line ! 2 = CHR ''1'' then
        (case parse_order_record line of
           Some ord \<Rightarrow> parse_lines (ords @ [ord]) lines
         | None \<Rightarrow> parse_lines ords lines)
      else parse_lines ords lines)"

record parse_result =
  pr_orders :: "OrderRecord list"
  pr_expanded_orders :: "ExpandedBook list"
  pr_extracted_order_number :: string

text \<open>
  \<open>parse_file\<close>. The file system maps a path to what \<open>readlines()\<close> returns there; a
  path it does not hold makes \<open>open\<close> raise. The parser is returned as the call leaves
  it, also when the call raises: \<open>self.orders\<close> is only ever appended to.
\<close>

definition parse_file ::
  "clock \<Rightarrow> (string \<rightharpoonup> string list) \<Rightarrow> parser \<Rightarrow> string \<Rightarrow> parser \<times> (py_error + parse_result)" where
  "parse_file now fs p file_path =
     (let (p1, num) = extract_order_number_from_filename now p file_path;
          p2 = p1\<lparr>extracted_order_number := num\<rparr>
      in case fs file_path of
           None \<Rightarrow> (p2, Inl IOError)
         | Some raw \<Rightarrow>
             (let lines = map rstrip_newlines raw;
                  p3 = p2\<lparr>orders := parse_lines (orders p2) lines\<rparr>
              in case expand_orders_with_books (orders p3) of
                   Inl e \<Rightarrow> (p3, Inl e)
                 | Inr expanded \<Rightarrow>
                     (p3, Inr \<lparr> pr_orders = orders p3,
                                pr_expanded_orders = expanded,
                                pr_extracted_order_number = extracted_order_number p3 \<rparr>)))"

record file_metadata =
  md_bank_id :: string
  md_run_number :: string
  md_supplier_code :: string
  md_file_date :: string
  md_total_orders :: nat
  md_total_books :: int
  md_filename :: string

definition get_file_metadata :: "clock \<Rightarrow> parser \<Rightarrow> file_metadata" where
  "get_file_metadata now p =
     \<lparr> md_bank_id = ''01'',
       md_run_number = extracted_order_number p,
       md_supplier_code = ''TD'',
       md_file_date = strftime_Ymd now,
       md_total_orders = total_orders (orders p),
       md_total_books = total_books (orders p),
       md_filename = filename p \<rparr>"

section \<open>\<open>PackingListGenerator\<close> and the table of \<open>PackingListPDFMapper\<close>\<close>

text \<open>
  \<open>grouped\<close> is a \<open>defaultdict(list)\<close>; a dictionary keeps its keys in insertion order,
  so it is an association list here. \<open>grouped_append\<close> is \<open>grouped[k].append(v)\<close>.
\<close>

fun grouped_append :: "(string \<times> 'a list) list \<Rightarrow> string \<Rightarrow> 'a \<Rightarrow> (string \<times> 'a list) list" where
  "grouped_append [] k v = [(k, [v])]"
| "grouped_append ((k', vs) # g) k v =
     (if k' = k then (k', vs @ [v]) # g else (k', vs) # grouped_append g k v)"

fun group_loop :: "(string \<times> ExpandedBook list) list \<Rightarrow> ExpandedBook list \<Rightarrow> (string \<times> ExpandedBook list) list" where
  "group_loop grouped [] = grouped"
| "group_loop grouped (book # books) =
     (let delivery_code = py_strip (eb_delivery_branch_code book)
      in if delivery_code \<noteq> [] then group_loop (grouped_append grouped delivery_code book) books
         else group_loop grouped books)"

definition group_books_by_delivery_branch :: "ExpandedBook list \<Rightarrow> (string \<times> ExpandedBook list) list" where
  "group_books_by_delivery_branch expanded_orders = group_loop [] expanded_orders"

record BookEntry =
  be_book_style :: string
  be_account_name :: string
  be_account_number :: string
  be_start_serial :: string
  be_branch_code :: string
  be_currency :: string
  be_leaves :: int

record PackingList =
  pl_bank_name :: string
  pl_order_number :: string
  pl_order_date :: string
  pl_delivery_branch_code :: string
  pl_delivery_branch_name :: string
  pl_total_books :: nat
  pl_books :: "BookEntry list"

definition book_entry :: "ExpandedBook \<Rightarrow> BookEntry" where
  "book_entry book =
     \<lparr> be_book_style = eb_book_style book,
       be_account_name = py_strip (eb_account_name book),
       be_account_number = py_strip (eb_account_number book),
       be_start_serial = py_strip (eb_serial_number book),
       be_branch_code = py_strip (eb_delivery_branch_code book),
       be_currency = eb_currency book,
       be_leaves = eb_leaves book \<rparr>"

text \<open>
  The loop over \<open>sorted(grouped_books.keys())\<close>. \<open>grouped_books[branch_code]\<close> raises
  \<open>KeyError\<close> on a missing key and \<open>books[0]\<close> raises \<open>IndexError\<close> on an empty list.
\<close>

fun packing_lists_loop ::
  "(string \<times> ExpandedBook list) list \<Rightarrow> string \<Rightarrow> string \<Rightarrow> string list \<Rightarrow> py_error + PackingList list" where
  "packing_lists_loop grouped order_number order_date [] = Inr []"
| "packing_lists_loop grouped order_number order_date (branch_code # codes) =
     (case map_of grouped branch_code of
        None \<Rightarrow> Inl KeyError
      | Some [] \<Rightarrow> Inl IndexError
      | Some (b0 # bs) \<Rightarrow>
          (case packing_lists_loop grouped order_number order_date codes of
             Inl e \<Rightarrow> Inl e
           | Inr rest \<Rightarrow>
               Inr (\<lparr> pl_bank_name = ''KCB Bank Ltd'',
                      pl_order_number = order_number,
                      pl_order_date = order_date,
                      pl_delivery_branch_code = branch_code,
                      pl_delivery_branch_name = py_strip (eb_delivery_branch_name b0),
                      pl_total_books = length (b0 # bs),
                      pl_books = map book_entry (b0 # bs) \<rparr> # rest)))"

definition generate_packing_lists :: "ExpandedBook list \<Rightarrow> string \<Rightarrow> string \<Rightarrow> py_error + PackingList list" where
  "generate_packing_lists expanded_orders order_number order_date =
     (let grouped_books = group_books_by_delivery_branch expanded_orders
      in packing_lists_loop grouped_books order_number order_date (sort (map fst grouped_books)))"

text \<open>
  \<open>sorted(books, key=lambda x: x['book_style'], reverse=True)\<close> in
  \<open>_create_books_table\<close>: a stable sort; with \<open>reverse=True\<close> the list is reversed,
  sorted ascending and reversed again, so equal keys keep their order.
\<close>

definition sorted_books :: "BookEntry list \<Rightarrow> BookEntry list" where
  "sorted_books books = rev (sort_key be_book_style (rev books))"

text \<open>The rows of the table under its header row.\<close>

definition books_table_rows :: "BookEntry list \<Rightarrow> string \<Rightarrow> string list list" where
  "books_table_rows books branch_name =
     map (\<lambda>book. [be_book_style book, be_account_name book, be_account_number book,
                   be_start_serial book, be_branch_code book, branch_name])
         (sorted_books books)"

section \<open>\<open>PackingListOrchestrator\<close>\<close>

text \<open>
  The orchestrator owns one parser, made in its \<open>__init__\<close>. A generated PDF is
  represented by the packing lists handed to the PDF mapper.
\<close>

definition process_dat_file ::
  "clock \<Rightarrow> (string \<rightharpoonup> string list) \<Rightarrow> parser \<Rightarrow> string \<Rightarrow> parser \<times> (py_error + PackingList list)" where
  "process_dat_file now fs p dat_file_path =
     (case parse_file now fs p dat_file_path of
        (p', Inl e) \<Rightarrow> (p', Inl e)
      | (p', Inr parsed_data) \<Rightarrow>
          (let metadata = get_file_metadata now p';
               order_number = ''KCB-'' @ md_run_number metadata;
               order_date = md_file_date metadata
           in (p', generate_packing_lists (pr_expanded_orders parsed_data) order_number order_date)))"

text \<open>
  \<open>process_multiple_files\<close>: every file goes through \<open>self.parser\<close>; a file that raises
  is skipped. The first argument is \<open>generated_pdfs\<close>.
\<close>

fun process_files_loop ::
  "PackingList list list \<Rightarrow> clock \<Rightarrow> (string \<rightharpoonup> string list) \<Rightarrow> parser \<Rightarrow> string list
     \<Rightarrow> parser \<times> PackingList list list" where
  "process_files_loop generated_pdfs now fs p [] = (p, generated_pdfs)"
| "process_files_loop generated_pdfs now fs p (dat_file # dat_files) =
     (case process_dat_file now fs p dat_file of
        (p', Inl e) \<Rightarrow> process_files_loop generated_pdfs now fs p' dat_files
      | (p', Inr pdf) \<Rightarrow> process_files_loop (generated_pdfs @ [pdf]) now fs p' dat_files)"

definition process_multiple_files ::
  "clock \<Rightarrow> (string \<rightharpoonup> string list) \<Rightarrow> string list \<Rightarrow> PackingList list list" where
  "process_multiple_files now fs dat_files = snd (process_files_loop [] now fs new_parser dat_files)"

section \<open>Example order lines\<close>

text \<open>
  Lines in the 210-column layout, each with the record that \<open>_parse_order_record\<close>
  decodes from it; the theorems below evaluate the code on them.
\<close>

text \<open>Style 01, two books from serial 000001, delivered to branch 01320.\<close>

definition two_books_line :: string where
  "two_books_line =
     ''011001100123456789070000010002000001000000JOHN DOE                    '' @
     ''        KCB MOI AVENUE                NAIROBI                       1 '' @
     ''                             01320KCB LAVINGTON'' @
     replicate 23 (CHR '' '')"

definition two_books_order :: OrderRecord where
  "two_books_order =
     \<lparr> bank_id = ''01'',
       order_id = ''1'',
       priority = ''0'',
       sort_code = ''01100'',
       account_number = ''1234567890'',
       check_digit = ''7'',
       cheque_voucher_digits = ''00'',
       credits_voucher_digits = ''00'',
       book_style = ''01'',
       number_of_books = 2,
       cheque_start_serial = ''000001'',
       credits_start_serial = ''000000'',
       personalization = ''JOHN DOE'',
       branch_title = ''KCB MOI AVENUE'',
       branch_address = ''NAIROBI'',
       signature_required = ''1'',
       beneficiary_name = '''',
       delivery_branch_code = ''01320'',
       delivery_branch_name = ''KCB LAVINGTON'' \<rparr>"

text \<open>A header that declares zero books.\<close>

definition zero_books_line :: string where
  "zero_books_line =
     ''011001100222222222270000010000000001000000JANE ROE                    '' @
     ''        KCB MOI AVENUE                NAIROBI                       1 '' @
     ''                             01320KCB LAVINGTON'' @
     replicate 23 (CHR '' '')"

definition zero_books_order :: OrderRecord where
  "zero_books_order =
     \<lparr> bank_id = ''01'',
       order_id = ''1'',
       priority = ''0'',
       sort_code = ''01100'',
       account_number = ''2222222222'',
       check_digit = ''7'',
       cheque_voucher_digits = ''00'',
       credits_voucher_digits = ''00'',
       book_style = ''01'',
       number_of_books = 0,
       cheque_start_serial = ''000001'',
       credits_start_serial = ''000000'',
       personalization = ''JANE ROE'',
       branch_title = ''KCB MOI AVENUE'',
       branch_address = ''NAIROBI'',
       signature_required = ''1'',
       beneficiary_name = '''',
       delivery_branch_code = ''01320'',
       delivery_branch_name = ''KCB LAVINGTON'' \<rparr>"

text \<open>Two books of 50 leaves starting at serial 999990.\<close>

definition overflow_line :: string where
  "overflow_line =
     ''011001100333333333370000010002999990000000ACME CORP                   '' @
     ''        KCB MOI AVENUE                NAIROBI                       1 '' @
     ''                             01320KCB LAVINGTON'' @
     replicate 23 (CHR '' '')"

definition overflow_order :: OrderRecord where
  "overflow_order =
     \<lparr> bank_id = ''01'',
       order_id = ''1'',
       priority = ''0'',
       sort_code = ''01100'',
       account_number = ''3333333333'',
       check_digit = ''7'',
       cheque_voucher_digits = ''00'',
       credits_voucher_digits = ''00'',
       book_style = ''01'',
       number_of_books = 2,
       cheque_start_serial = ''999990'',
       credits_start_serial = ''000000'',
       personalization = ''ACME CORP'',
       branch_title = ''KCB MOI AVENUE'',
       branch_address = ''NAIROBI'',
       signature_required = ''1'',
       beneficiary_name = '''',
       delivery_branch_code = ''01320'',
       delivery_branch_name = ''KCB LAVINGTON'' \<rparr>"

text \<open>A serial field that is not a number.\<close>

definition bad_serial_line :: string where
  "bad_serial_line =
     ''01100110044444444447000001000100A001000000BAD SERIAL LTD              '' @
     ''        KCB MOI AVENUE                NAIROBI                       1 '' @
     ''                             01320KCB LAVINGTON'' @
     replicate 23 (CHR '' '')"

definition bad_serial_order :: OrderRecord where
  "bad_serial_order =
     \<lparr> bank_id = ''01'',
       order_id = ''1'',
       priority = ''0'',
       sort_code = ''01100'',
       account_number = ''4444444444'',
       check_digit = ''7'',
       cheque_voucher_digits = ''00'',
       credits_voucher_digits = ''00'',
       book_style = ''01'',
       number_of_books = 1,
       cheque_start_serial = ''00A001'',
       credits_start_serial = ''000000'',
       personalization = ''BAD SERIAL LTD'',
       branch_title = ''KCB MOI AVENUE'',
       branch_address = ''NAIROBI'',
       signature_required = ''1'',
       beneficiary_name = '''',
       delivery_branch_code = ''01320'',
       delivery_branch_name = ''KCB LAVINGTON'' \<rparr>"

text \<open>One book of style 02 for branch 00100.\<close>

definition other_branch_line :: string where
  "other_branch_line =
     ''011001100555555555570000020001000500000000OTHER CO                    '' @
     ''        KCB MOI AVENUE                NAIROBI                       1 '' @
     ''                             00100KCB KENCOM'' @
     replicate 26 (CHR '' '')"

definition other_branch_order :: OrderRecord where
  "other_branch_order =
     \<lparr> bank_id = ''01'',
       order_id = ''1'',
       priority = ''0'',
       sort_code = ''01100'',
       account_number = ''5555555555'',
       check_digit = ''7'',
       cheque_voucher_digits = ''00'',
       credits_voucher_digits = ''00'',
       book_style = ''02'',
       number_of_books = 1,
       cheque_start_serial = ''000500'',
       credits_start_serial = ''000000'',
       personalization = ''OTHER CO'',
       branch_title = ''KCB MOI AVENUE'',
       branch_address = ''NAIROBI'',
       signature_required = ''1'',
       beneficiary_name = '''',
       delivery_branch_code = ''00100'',
       delivery_branch_name = ''KCB KENCOM'' \<rparr>"

text \<open>An order line whose delivery branch code is blank.\<close>

definition no_branch_line :: string where
  "no_branch_line =
     ''011001100666666666670000010001000001000000NO BRANCH                   '' @
     ''        KCB MOI AVENUE                NAIROBI                       1'' @
     replicate 71 (CHR '' '')"

definition no_branch_order :: OrderRecord where
  "no_branch_order =
     \<lparr> bank_id = ''01'',
       order_id = ''1'',
       priority = ''0'',
       sort_code = ''01100'',
       account_number = ''6666666666'',
       check_digit = ''7'',
       cheque_voucher_digits = ''00'',
       credits_voucher_digits = ''00'',
       book_style = ''01'',
       number_of_books = 1,
       cheque_start_serial = ''000001'',
       credits_start_serial = ''000000'',
       personalization = ''NO BRANCH'',
       branch_title = ''KCB MOI AVENUE'',
       branch_address = ''NAIROBI'',
       signature_required = ''1'',
       beneficiary_name = '''',
       delivery_branch_code = '''',
       delivery_branch_name = '''' \<rparr>"

text \<open>The first 36 columns of the line of two books: it ends after the start serial.\<close>

definition short_line :: string where
  "short_line = ''011001100123456789070000010002000001''"

definition short_order :: OrderRecord where
  "short_order =
     \<lparr> bank_id = ''01'',
       order_id = ''1'',
       priority = ''0'',
       sort_code = ''01100'',
       account_number = ''1234567890'',
       check_digit = ''7'',
       cheque_voucher_digits = ''00'',
       credits_voucher_digits = ''00'',
       book_style = ''01'',
       number_of_books = 2,
       cheque_start_serial = ''000001'',
       credits_start_serial = '''',
       personalization = '''',
       branch_title = '''',
       branch_address = '''',
       signature_required = '''',
       beneficiary_name = '''',
       delivery_branch_code = '''',
       delivery_branch_name = '''' \<rparr>"

text \<open>A reading of the clock: 9 March 2026, 7 o'clock.\<close>

definition example_clock :: clock where
  "example_clock = \<lparr> year = 2026, month = 3, day = 9, hour = 7 \<rparr>"

text \<open>
  Three expanded books: one for branch 01320, one for branch 00100, one whose delivery
  branch code is blank.
\<close>

definition example_books :: "ExpandedBook list" where
  "example_books =
     [order_to_dict two_books_order ''000001'',
      order_to_dict other_branch_order ''000500'',
      order_to_dict no_branch_order ''000001'']"

text \<open>
  Two files as \<open>readlines()\<close> returns them: \<open>a.dat\<close> holds a header line, the order
  of two books for branch 01320 and a trailer line; \<open>b.dat\<close> holds the order of one
  book for branch 00100.
\<close>

definition example_fs :: "string \<rightharpoonup> string list" where
  "example_fs =
     map_of
       [(''a.dat'', [''010HEADER'' @ [CHR 0x0A], two_books_line @ [CHR 0x0A],
                     ''014TRAILER'' @ [CHR 0x0A]]),
        (''b.dat'', [other_branch_line @ [CHR 0x0A]])]"


section \<open>Facts about the string primitives\<close>

lemma digit_char_isdigit: "d < 10 \<Longrightarrow> py_isdigit (digit_char d)"
  by (simp add: py_isdigit_def digit_char_def)

lemma digit_char_value: "d < 10 \<Longrightarrow> digit_value (digit_char d) = d"
  by (simp add: digit_value_def digit_char_def)

lemma isdigit_not_space: "py_isdigit c \<Longrightarrow> \<not> py_isspace c"
  by (auto simp: py_isdigit_def py_isspace_def)

lemma isdigit_not_sign: "py_isdigit c \<Longrightarrow> c \<noteq> CHR ''-'' \<and> c \<noteq> CHR ''+''"
  by (auto simp: py_isdigit_def)

lemma zero_isdigit: "py_isdigit (CHR ''0'')" "digit_value (CHR ''0'') = 0"
  by (simp_all add: py_isdigit_def digit_value_def)

lemma minus_not_space: "\<not> py_isspace (CHR ''-'')"
  by (simp add: py_isspace_def)

lemma nat_digits_small: "n < 10 \<Longrightarrow> nat_digits n = [digit_char n]"
  by (subst nat_digits.simps) simp

lemma nat_digits_big:
  "\<not> n < 10 \<Longrightarrow> nat_digits n = nat_digits (n div 10) @ [digit_char (n mod 10)]"
  by (subst nat_digits.simps) simp

lemma nat_digits_all_digits: "c \<in> set (nat_digits n) \<Longrightarrow> py_isdigit c"
proof (induction n rule: nat_digits.induct)
  case (1 n)
  show ?case
  proof (cases "n < 10")
    case True
    with "1.prems" show ?thesis by (simp add: nat_digits_small digit_char_isdigit)
  next
    case False
    with "1.prems" "1.IH" show ?thesis
      by (auto simp: nat_digits_big digit_char_isdigit)
  qed
qed

lemma nat_digits_nonempty: "nat_digits n \<noteq> []"
  by (cases "n < 10") (simp_all add: nat_digits_small nat_digits_big)

lemma digits_value_append: "digits_value acc (xs @ ys) = digits_value (digits_value acc xs) ys"
  by (simp add: digits_value_def)

lemma parse_digits_all_digits:
  "\<forall>c\<in>set ds. py_isdigit c \<Longrightarrow> ds \<noteq> [] \<Longrightarrow> parse_digits acc p ds = Some (digits_value acc ds)"
proof (induction ds arbitrary: acc p)
  case Nil
  then show ?case by simp
next
  case (Cons c cs)
  show ?case
  proof (cases "cs = []")
    case True
    with Cons.prems show ?thesis by (simp add: digits_value_def)
  next
    case False
    with Cons.prems Cons.IH [of "10 * acc + digit_value c" True] show ?thesis
      by (simp add: digits_value_def)
  qed
qed

lemma digits_value_nat_digits: "digits_value acc (nat_digits n) = acc * 10 ^ length (nat_digits n) + n"
proof (induction n arbitrary: acc rule: nat_digits.induct)
  case (1 n)
  show ?case
  proof (cases "n < 10")
    case True
    then show ?thesis by (simp add: nat_digits_small digits_value_def digit_char_value)
  next
    case False
    have "digits_value acc (nat_digits n) =
            10 * digits_value acc (nat_digits (n div 10)) + n mod 10"
      using False by (simp add: nat_digits_big digits_value_def digit_char_value)
    also have "\<dots> = 10 * (acc * 10 ^ length (nat_digits (n div 10)) + n div 10) + n mod 10"
      using "1.IH" [OF False] by simp
    also have "\<dots> = acc * 10 ^ length (nat_digits n) + n"
      using False by (simp add: nat_digits_big [of n] algebra_simps)
    finally show ?thesis .
  qed
qed

lemma digits_value_zeros: "digits_value 0 (replicate j (CHR ''0'')) = 0"
  by (induction j) (simp_all add: digits_value_def zero_isdigit)

lemma parse_padded_nat_digits:
  "parse_digits 0 False (replicate j (CHR ''0'') @ nat_digits n) = Some n"
proof -
  have "\<forall>c\<in>set (replicate j (CHR ''0'') @ nat_digits n). py_isdigit c"
    by (auto simp: zero_isdigit nat_digits_all_digits)
  moreover have "replicate j (CHR ''0'') @ nat_digits n \<noteq> []"
    by (simp add: nat_digits_nonempty)
  ultimately have "parse_digits 0 False (replicate j (CHR ''0'') @ nat_digits n) =
      Some (digits_value 0 (replicate j (CHR ''0'') @ nat_digits n))"
    by (rule parse_digits_all_digits)
  then show ?thesis
    by (simp add: digits_value_append digits_value_zeros digits_value_nat_digits)
qed

lemma py_strip_id:
  "s \<noteq> [] \<Longrightarrow> \<not> py_isspace (hd s) \<Longrightarrow> \<not> py_isspace (last s) \<Longrightarrow> py_strip s = s"
proof -
  assume a: "s \<noteq> []" "\<not> py_isspace (hd s)" "\<not> py_isspace (last s)"
  then have l: "py_lstrip s = s"
    by (cases s) (simp_all add: py_lstrip_def)
  from a have "rev s \<noteq> []" "\<not> py_isspace (hd (rev s))"
    by (simp_all add: hd_rev)
  then have "dropWhile py_isspace (rev s) = rev s"
    by (cases "rev s") simp_all
  then show ?thesis using l by (simp add: py_strip_def py_rstrip_def)
qed

lemma last_nat_digits_isdigit: "py_isdigit (last (nat_digits n))"
  using nat_digits_all_digits [of "last (nat_digits n)" n] nat_digits_nonempty [of n]
  by simp

lemma hd_nat_digits_isdigit: "py_isdigit (hd (nat_digits n))"
  using nat_digits_all_digits [of "hd (nat_digits n)" n] nat_digits_nonempty [of n]
  by simp

lemma py_zfill_str_int:
  "py_zfill w (py_str_int i) =
     (if i < 0 then CHR ''-'' # replicate (w - length (py_str_int i)) (CHR ''0'') @ nat_digits (nat (- i))
      else replicate (w - length (py_str_int i)) (CHR ''0'') @ nat_digits (nat i))"
proof (cases "i < 0")
  case True
  then show ?thesis by (simp add: py_zfill_def py_str_int_def)
next
  case False
  obtain c cs where s: "nat_digits (nat i) = c # cs"
    using nat_digits_nonempty [of "nat i"] by (cases "nat_digits (nat i)") auto
  then have "py_isdigit c" using hd_nat_digits_isdigit [of "nat i"] by simp
  then have "c \<noteq> CHR ''-''" "c \<noteq> CHR ''+''" using isdigit_not_sign by auto
  with False s show ?thesis by (simp add: py_zfill_def py_str_int_def)
qed

lemma py_int_signed_digits:
  "py_int (CHR ''-'' # replicate j (CHR ''0'') @ nat_digits n) = Some (- int n)"
proof -
  let ?s = "CHR ''-'' # replicate j (CHR ''0'') @ nat_digits n"
  have "last ?s = last (nat_digits n)" by (simp add: nat_digits_nonempty)
  then have "\<not> py_isspace (last ?s)"
    using last_nat_digits_isdigit [of n] isdigit_not_space by simp
  then have "py_strip ?s = ?s"
    by (intro py_strip_id) (simp_all add: minus_not_space)
  then show ?thesis by (simp add: py_int_def parse_padded_nat_digits)
qed

lemma py_int_unsigned_digits:
  "py_int (replicate j (CHR ''0'') @ nat_digits n) = Some (int n)"
proof -
  let ?s = "replicate j (CHR ''0'') @ nat_digits n"
  obtain c cs where s: "?s = c # cs"
    using nat_digits_nonempty [of n] by (cases ?s) auto
  have "\<forall>c\<in>set ?s. py_isdigit c" by (auto simp: zero_isdigit nat_digits_all_digits)
  with s have d: "py_isdigit c" by (metis list.set_intros(1))
  have "last ?s = last (nat_digits n)" by (simp add: nat_digits_nonempty)
  then have "\<not> py_isspace (last ?s)"
    using last_nat_digits_isdigit [of n] isdigit_not_space by simp
  moreover have "\<not> py_isspace (hd ?s)" using s d isdigit_not_space by simp
  ultimately have "py_strip ?s = ?s" using s by (intro py_strip_id) simp_all
  moreover have "parse_digits 0 False (c # cs) = Some n"
    using parse_padded_nat_digits [of j n] s by simp
  ultimately show ?thesis using s d isdigit_not_sign [of c] by (simp add: py_int_def)
qed

lemma py_int_zfill_str: "py_int (py_zfill w (py_str_int i)) = Some i"
  by (simp add: py_zfill_str_int py_int_signed_digits py_int_unsigned_digits)

lemma length_py_zfill: "length (py_zfill w s) = max w (length s)"
  by (auto simp: py_zfill_def split: list.splits)

lemma length_nat_digits_le: "0 < k \<Longrightarrow> n < 10 ^ k \<Longrightarrow> length (nat_digits n) \<le> k"
proof (induction n arbitrary: k rule: nat_digits.induct)
  case (1 n)
  show ?case
  proof (cases "n < 10")
    case True
    with "1.prems" show ?thesis by (simp add: nat_digits_small)
  next
    case False
    with "1.prems" obtain k' where k: "k = Suc k'" "0 < k'"
      by (cases k; cases "k - 1") auto
    with "1.prems" have "n div 10 < 10 ^ k'" by (simp add: less_mult_imp_div_less mult.commute)
    from "1.IH" [OF False \<open>0 < k'\<close> this] False k show ?thesis
      by (simp add: nat_digits_big [of n])
  qed
qed

lemma length_nat_digits_gt: "10 ^ k \<le> n \<Longrightarrow> k < length (nat_digits n)"
proof (induction n arbitrary: k rule: nat_digits.induct)
  case (1 n)
  show ?case
  proof (cases k)
    case 0
    then show ?thesis using nat_digits_nonempty [of n] by simp
  next
    case (Suc k')
    with "1.prems" have nge: "\<not> n < 10"
      by (metis One_nat_def less_le_trans not_less one_le_numeral power_increasing power_one_right zero_less_Suc Suc_leI)
    from Suc "1.prems" have "10 ^ k' \<le> n div 10" by (simp add: less_eq_div_iff_mult_less_eq mult.commute)
    from "1.IH" [OF nge this] nge Suc show ?thesis
      by (simp add: nat_digits_big [of n])
  qed
qed

section \<open>Facts about the expansion loop\<close>

lemma length_additional_books: "length (additional_books ord inc cur k) = k"
  by (induction k arbitrary: cur) (simp_all add: Let_def)

lemma nth_additional_books:
  "i < k \<Longrightarrow> additional_books ord inc cur k ! i =
     order_to_dict ord (py_zfill 6 (py_str_int (cur + (int i + 1) * inc)))"
proof (induction k arbitrary: cur i)
  case 0
  then show ?case by simp
next
  case (Suc k)
  show ?case
  proof (cases i)
    case 0
    then show ?thesis by (simp add: Let_def)
  next
    case (Suc j)
    with Suc.prems have "j < k" by simp
    from Suc.IH [OF this, of "cur + inc"] Suc show ?thesis
      by (simp add: Let_def algebra_simps)
  qed
qed

lemma expand_loop_acc:
  "expand_loop acc ords = (case expand_loop [] ords of Inl e \<Rightarrow> Inl e | Inr bs \<Rightarrow> Inr (acc @ bs))"
proof (induction ords arbitrary: acc)
  case Nil
  then show ?case by simp
next
  case (Cons ord ords)
  show ?case
  proof (cases "expand_order ord")
    case (Inl e)
    then show ?thesis by simp
  next
    case (Inr books)
    have "expand_loop (acc @ books) ords =
            (case expand_loop [] ords of Inl e \<Rightarrow> Inl e | Inr bs \<Rightarrow> Inr ((acc @ books) @ bs))"
      by (rule Cons.IH)
    moreover have "expand_loop ([] @ books) ords =
            (case expand_loop [] ords of Inl e \<Rightarrow> Inl e | Inr bs \<Rightarrow> Inr (([] @ books) @ bs))"
      by (rule Cons.IH)
    ultimately show ?thesis using Inr by (simp split: sum.splits)
  qed
qed

lemma expand_orders_Nil: "expand_orders_with_books [] = Inr []"
  by (simp add: expand_orders_with_books_def)

lemma expand_orders_Cons:
  "expand_orders_with_books (ord # ords) =
     (case expand_order ord of
        Inl e \<Rightarrow> Inl e
      | Inr books \<Rightarrow> (case expand_orders_with_books ords of
                       Inl e \<Rightarrow> Inl e
                     | Inr bs \<Rightarrow> Inr (books @ bs)))"
proof (cases "expand_order ord")
  case (Inl e)
  then show ?thesis by (simp add: expand_orders_with_books_def)
next
  case (Inr books)
  have "expand_loop books ords =
          (case expand_loop [] ords of Inl e \<Rightarrow> Inl e | Inr bs \<Rightarrow> Inr (books @ bs))"
    by (rule expand_loop_acc)
  with Inr show ?thesis by (simp add: expand_orders_with_books_def)
qed

lemma expand_orders_append:
  "expand_orders_with_books (xs @ ys) =
     (case expand_orders_with_books xs of
        Inl e \<Rightarrow> Inl e
      | Inr as \<Rightarrow> (case expand_orders_with_books ys of
                       Inl e \<Rightarrow> Inl e
                     | Inr bs \<Rightarrow> Inr (as @ bs)))"
  by (induction xs) (simp_all add: expand_orders_Nil expand_orders_Cons split: sum.splits)

lemma expand_orders_single:
  "expand_orders_with_books [ord] = expand_order ord"
  by (simp add: expand_orders_Cons expand_orders_Nil split: sum.splits)

lemma length_expand_order:
  "expand_order ord = Inr books \<Longrightarrow> int (length books) = max (number_of_books ord) 1"
  by (auto simp: expand_order_def Let_def length_additional_books split: option.splits)

lemma expand_order_Some:
  "py_int (cheque_start_serial ord) = Some s \<Longrightarrow>
     expand_order ord =
       Inr (order_to_dict ord (cheque_start_serial ord) #
            additional_books ord (serial_increment (book_style ord)) s (nat (number_of_books ord - 1)))"
  by (simp add: expand_order_def)

lemma expand_order_None:
  "py_int (cheque_start_serial ord) = None \<Longrightarrow> expand_order ord = Inl ValueError"
  by (simp add: expand_order_def)

lemma expand_order_Inr_iff:
  "(\<exists>books. expand_order ord = Inr books) \<longleftrightarrow> (\<exists>s. py_int (cheque_start_serial ord) = Some s)"
  by (cases "py_int (cheque_start_serial ord)") (simp_all add: expand_order_Some expand_order_None)

lemma expand_order_error: "expand_order ord = Inl e \<Longrightarrow> e = ValueError"
  by (cases "py_int (cheque_start_serial ord)") (simp_all add: expand_order_Some expand_order_None)

lemma expand_orders_error_iff:
  "expand_orders_with_books ords = Inl ValueError \<longleftrightarrow>
     (\<exists>ord\<in>set ords. py_int (cheque_start_serial ord) = None)"
proof (induction ords)
  case Nil
  show ?case by (simp add: expand_orders_Nil)
next
  case (Cons ord ords)
  show ?case
  proof (cases "py_int (cheque_start_serial ord)")
    case None
    then show ?thesis by (simp add: expand_orders_Cons expand_order_None)
  next
    case (Some s)
    show ?thesis
    proof (cases "expand_orders_with_books ords")
      case (Inl e)
      with Some Cons.IH show ?thesis
        by (simp add: expand_orders_Cons expand_order_Some)
    next
      case (Inr bs)
      with Some Cons.IH show ?thesis
        by (simp add: expand_orders_Cons expand_order_Some)
    qed
  qed
qed

lemma expand_orders_only_ValueError: "expand_orders_with_books ords = Inl e \<Longrightarrow> e = ValueError"
proof (induction ords)
  case Nil
  then show ?case by (simp add: expand_orders_Nil)
next
  case (Cons ord ords)
  then show ?case
    by (auto simp: expand_orders_Cons split: sum.splits dest: expand_order_error)
qed

lemma length_expand_orders:
  "expand_orders_with_books ords = Inr books \<Longrightarrow>
     int (length books) = sum_list (map (\<lambda>ord. max (number_of_books ord) 1) ords)"
proof (induction ords arbitrary: books)
  case Nil
  then show ?case by (simp add: expand_orders_Nil)
next
  case (Cons ord ords)
  from Cons.prems obtain b1 b2 where
    b: "expand_order ord = Inr b1" "expand_orders_with_books ords = Inr b2" "books = b1 @ b2"
    by (auto simp: expand_orders_Cons split: sum.splits)
  from Cons.IH [OF b(2)] length_expand_order [OF b(1)] b(3) show ?case by simp
qed

lemma sum_list_max_one:
  "\<forall>ord\<in>set ords. 1 \<le> number_of_books ord \<Longrightarrow>
     sum_list (map (\<lambda>ord. max (number_of_books ord) 1) ords) = total_books ords"
  by (induction ords) (simp_all add: total_books_def)

lemma expand_orders_concat:
  "\<forall>ord\<in>set ords. \<exists>s. py_int (cheque_start_serial ord) = Some s \<Longrightarrow>
     \<exists>bss. length bss = length ords \<and>
           (\<forall>i<length ords. expand_orders_with_books [ords ! i] = Inr (bss ! i) \<and>
                int (length (bss ! i)) = max (number_of_books (ords ! i)) 1) \<and>
           expand_orders_with_books ords = Inr (concat bss)"
proof (induction ords)
  case Nil
  show ?case by (simp add: expand_orders_Nil)
next
  case (Cons ord ords)
  from Cons.prems obtain s where s: "py_int (cheque_start_serial ord) = Some s" by auto
  then obtain bs where bs: "expand_order ord = Inr bs" by (simp add: expand_order_Some)
  from Cons.prems have "\<forall>ord\<in>set ords. \<exists>s. py_int (cheque_start_serial ord) = Some s" by simp
  from Cons.IH [OF this] obtain bss where bss:
    "length bss = length ords"
    "\<forall>i<length ords. expand_orders_with_books [ords ! i] = Inr (bss ! i) \<and>
        int (length (bss ! i)) = max (number_of_books (ords ! i)) 1"
    "expand_orders_with_books ords = Inr (concat bss)"
    by blast
  have 1: "length (bs # bss) = length (ord # ords)" using bss(1) by simp
  have 2: "\<forall>i<length (ord # ords). expand_orders_with_books [(ord # ords) ! i] = Inr ((bs # bss) ! i) \<and>
        int (length ((bs # bss) ! i)) = max (number_of_books ((ord # ords) ! i)) 1"
  proof (intro allI impI)
    fix i assume i: "i < length (ord # ords)"
    show "expand_orders_with_books [(ord # ords) ! i] = Inr ((bs # bss) ! i) \<and>
        int (length ((bs # bss) ! i)) = max (number_of_books ((ord # ords) ! i)) 1"
    proof (cases i)
      case 0
      then show ?thesis using bs length_expand_order [OF bs] by (simp add: expand_orders_single)
    next
      case (Suc j)
      with i bss(2) show ?thesis by simp
    qed
  qed
  have 3: "expand_orders_with_books (ord # ords) = Inr (concat (bs # bss))"
    using bs bss(3) by (simp add: expand_orders_Cons)
  from 1 2 3 show ?case by blast
qed

lemma order_to_dict_serial [simp]: "eb_serial_number (order_to_dict ord x) = x"
  by (simp add: order_to_dict_def Let_def)

lemma order_to_dict_update:
  "order_to_dict ord x = (order_to_dict ord y)\<lparr>eb_serial_number := x\<rparr>"
  by (simp add: order_to_dict_def Let_def)

lemma nth_expand_order:
  assumes "py_int (cheque_start_serial ord) = Some s" "expand_order ord = Inr books" "i < length books"
  shows "books ! i =
           (if i = 0 then order_to_dict ord (cheque_start_serial ord)
            else order_to_dict ord
                   (py_zfill 6 (py_str_int (s + int i * serial_increment (book_style ord)))))"
proof (cases i)
  case 0
  with assms show ?thesis by (auto simp: expand_order_Some)
next
  case (Suc j)
  from assms have b: "books = order_to_dict ord (cheque_start_serial ord) #
            additional_books ord (serial_increment (book_style ord)) s (nat (number_of_books ord - 1))"
    by (simp add: expand_order_Some)
  with assms(3) Suc have "j < nat (number_of_books ord - 1)"
    by (simp add: length_additional_books)
  from nth_additional_books [OF this] b Suc show ?thesis
    by (simp add: algebra_simps)
qed

lemma length_py_str_int_le:
  assumes "- 99999 \<le> v" "v \<le> 999999"
  shows "length (py_str_int v) \<le> 6"
proof (cases "v < 0")
  case True
  with assms have "nat (- v) < 10 ^ 5" by simp
  then have "length (nat_digits (nat (- v))) \<le> 5" by (intro length_nat_digits_le) simp_all
  with True show ?thesis by (simp add: py_str_int_def)
next
  case False
  with assms have "nat v < 10 ^ 6" by simp
  then have "length (nat_digits (nat v)) \<le> 6" by (intro length_nat_digits_le) simp_all
  with False show ?thesis by (simp add: py_str_int_def)
qed

lemma digit_char_simps:
  "digit_char 0 = CHR ''0''" "digit_char 1 = CHR ''1''" "digit_char 2 = CHR ''2''"
  "digit_char 3 = CHR ''3''" "digit_char 4 = CHR ''4''" "digit_char 5 = CHR ''5''"
  "digit_char 6 = CHR ''6''" "digit_char 7 = CHR ''7''" "digit_char 8 = CHR ''8''"
  "digit_char 9 = CHR ''9''" "digit_char (Suc 0) = CHR ''1''"
  by code_simp+

lemma str_999990: "py_zfill 6 (py_str_int 999990) = ''999990''"
  by (simp add: py_zfill_def py_str_int_def nat_digits_big nat_digits_small digit_char_simps)

lemma str_1000040: "py_zfill 6 (py_str_int 1000040) = ''1000040''"
  by (simp add: py_zfill_def py_str_int_def nat_digits_big nat_digits_small digit_char_simps)

lemma int_999990: "py_int ''999990'' = Some 999990"
  using py_int_zfill_str [of 6 999990] by (simp add: str_999990)

section \<open>Claims about the expansion\<close>

text \<open>
  C1, as amended. \<open>_expand_orders_with_books\<close> has no handler around
  \<open>int(order.cheque_start_serial)\<close>: the expansion of a list of orders raises
  \<open>ValueError\<close>, and returns no books at all, exactly when some order of the list has a
  start serial that does not parse as an integer; it raises nothing else.
\<close>

theorem serial_error_aborts_batch:
  "(expand_orders_with_books ords = Inl ValueError) =
     (\<exists>ord\<in>set ords. py_int (cheque_start_serial ord) = None) \<and>
   (\<forall>e. expand_orders_with_books ords = Inl e \<longrightarrow> e = ValueError)"
  using expand_orders_error_iff [of ords] expand_orders_only_ValueError [of ords] by blast

text \<open>
  The theorem at a list of three orders whose second has the serial \<open>00A001\<close>.
\<close>

theorem serial_error_aborts_batch_witness:
  "py_int (cheque_start_serial bad_serial_order) = None \<and>
   expand_orders_with_books [two_books_order, bad_serial_order, other_branch_order] = Inl ValueError"
proof -
  have n: "py_int (cheque_start_serial bad_serial_order) = None" by code_simp
  then have "\<exists>ord\<in>set [two_books_order, bad_serial_order, other_branch_order].
               py_int (cheque_start_serial ord) = None" by simp
  with serial_error_aborts_batch [of "[two_books_order, bad_serial_order, other_branch_order]"] n
  show ?thesis by blast
qed

text \<open>
  C1 as stated fails: the orders before and after the bad one expand on their own, yet
  the batch of the three yields no books.
\<close>

theorem serial_error_counterexample:
  "parse_order_record bad_serial_line = Some bad_serial_order \<and>
   py_int (cheque_start_serial bad_serial_order) = None \<and>
   expand_orders_with_books [two_books_order] =
     Inr [order_to_dict two_books_order ''000001'', order_to_dict two_books_order ''000051''] \<and>
   expand_orders_with_books [other_branch_order] = Inr [order_to_dict other_branch_order ''000500''] \<and>
   expand_orders_with_books [two_books_order, bad_serial_order, other_branch_order] = Inl ValueError"
proof -
  have "parse_order_record bad_serial_line = Some bad_serial_order" by code_simp
  moreover have "py_int (cheque_start_serial bad_serial_order) = None" by code_simp
  moreover have "expand_orders_with_books [two_books_order] =
     Inr [order_to_dict two_books_order ''000001'', order_to_dict two_books_order ''000051'']"
    by code_simp
  moreover have "expand_orders_with_books [other_branch_order] =
     Inr [order_to_dict other_branch_order ''000500'']"
    by code_simp
  moreover have "expand_orders_with_books [two_books_order, bad_serial_order, other_branch_order] =
     Inl ValueError"
    by code_simp
  ultimately show ?thesis by simp
qed

text \<open>
  C3, as amended. When the expansion of a list of orders succeeds, the number of expanded
  books is the sum over the orders of \<open>max(number_of_books, 1)\<close>; it is the metadata
  field \<open>total_books\<close> when every order declares at least one book.
\<close>

theorem expanded_length_is_clamped_sum:
  assumes "expand_orders_with_books ords = Inr books"
  shows "int (length books) = sum_list (map (\<lambda>ord. max (number_of_books ord) 1) ords) \<and>
         ((\<forall>ord\<in>set ords. 1 \<le> number_of_books ord) \<longrightarrow> int (length books) = total_books ords)"
  using length_expand_orders [OF assms] sum_list_max_one [of ords] by simp

theorem expanded_length_is_clamped_sum_witness:
  "expand_orders_with_books [two_books_order, other_branch_order] =
     Inr [order_to_dict two_books_order ''000001'', order_to_dict two_books_order ''000051'',
          order_to_dict other_branch_order ''000500''] \<and>
   1 \<le> number_of_books two_books_order \<and> 1 \<le> number_of_books other_branch_order \<and>
   total_books [two_books_order, other_branch_order] = 3"
proof -
  have e: "expand_orders_with_books [two_books_order, other_branch_order] =
     Inr [order_to_dict two_books_order ''000001'', order_to_dict two_books_order ''000051'',
          order_to_dict other_branch_order ''000500'']"
    by code_simp
  have h: "\<forall>ord\<in>set [two_books_order, other_branch_order]. 1 \<le> number_of_books ord"
    by (simp add: two_books_order_def other_branch_order_def)
  from expanded_length_is_clamped_sum [OF e] h
  have "total_books [two_books_order, other_branch_order] = 3" by simp
  with e h show ?thesis by simp
qed

text \<open>
  C3 as stated fails on a decoded order that declares zero books: \<open>total_books\<close> is 0
  and the expansion holds one book.
\<close>

theorem zero_books_counterexample:
  "parse_order_record zero_books_line = Some zero_books_order \<and>
   expand_orders_with_books [zero_books_order] = Inr [order_to_dict zero_books_order ''000001''] \<and>
   total_books [zero_books_order] = 0 \<and>
   total_books [zero_books_order] \<noteq> int (length [order_to_dict zero_books_order ''000001''])"
proof -
  have "parse_order_record zero_books_line = Some zero_books_order" by code_simp
  moreover have "expand_orders_with_books [zero_books_order] = Inr [order_to_dict zero_books_order ''000001'']"
    by code_simp
  moreover have "total_books [zero_books_order] = 0"
    by (simp add: total_books_def zero_books_order_def)
  ultimately show ?thesis by simp
qed

text \<open>
  C4. When every start serial parses, each order on its own expands to exactly
  \<open>max(number_of_books, 1)\<close> books, and the expansion of the list is the concatenation
  of the orders' own expansions, in the order of the input.
\<close>

theorem expansion_count_and_order:
  assumes "\<forall>ord\<in>set ords. \<exists>s. py_int (cheque_start_serial ord) = Some s"
  shows "\<exists>bss. length bss = length ords \<and>
           (\<forall>i<length ords. expand_orders_with_books [ords ! i] = Inr (bss ! i) \<and>
                int (length (bss ! i)) = max (number_of_books (ords ! i)) 1) \<and>
           expand_orders_with_books ords = Inr (concat bss)"
  using assms by (rule expand_orders_concat)

text \<open>
  The theorem at an order that declares zero books followed by one that declares two.
\<close>

theorem expansion_count_and_order_witness:
  "py_int (cheque_start_serial zero_books_order) = Some 1 \<and>
   py_int (cheque_start_serial two_books_order) = Some 1 \<and>
   (\<exists>bss. length bss = 2 \<and>
          expand_orders_with_books [zero_books_order, two_books_order] = Inr (concat bss) \<and>
          expand_orders_with_books [zero_books_order] = Inr (bss ! 0) \<and>
          expand_orders_with_books [two_books_order] = Inr (bss ! 1) \<and>
          length (bss ! 0) = 1 \<and> length (bss ! 1) = 2)"
proof -
  have z: "py_int (cheque_start_serial zero_books_order) = Some 1" by code_simp
  have t: "py_int (cheque_start_serial two_books_order) = Some 1" by code_simp
  have nz: "number_of_books zero_books_order = 0" by (simp add: zero_books_order_def)
  have nt: "number_of_books two_books_order = 2" by (simp add: two_books_order_def)
  from z t have "\<forall>ord\<in>set [zero_books_order, two_books_order].
                   \<exists>s. py_int (cheque_start_serial ord) = Some s" by simp
  from expansion_count_and_order [OF this] obtain bss where b:
    "length bss = length [zero_books_order, two_books_order]"
    "\<forall>i<length [zero_books_order, two_books_order].
        expand_orders_with_books [[zero_books_order, two_books_order] ! i] = Inr (bss ! i) \<and>
        int (length (bss ! i)) = max (number_of_books ([zero_books_order, two_books_order] ! i)) 1"
    "expand_orders_with_books [zero_books_order, two_books_order] = Inr (concat bss)"
    by blast
  have l0: "0 < length [zero_books_order, two_books_order]" by simp
  have l1: "1 < length [zero_books_order, two_books_order]" by simp
  from b(2) [rule_format, OF l0] nz
  have b0: "expand_orders_with_books [zero_books_order] = Inr (bss ! 0)" "length (bss ! 0) = 1"
    by simp_all
  from b(2) [rule_format, OF l1] nt
  have b1: "expand_orders_with_books [two_books_order] = Inr (bss ! 1)" "length (bss ! 1) = 2"
    by simp_all
  from b(1) have "length bss = 2" by simp
  with b(3) b0 b1
  have "\<exists>bss. length bss = 2 \<and>
          expand_orders_with_books [zero_books_order, two_books_order] = Inr (concat bss) \<and>
          expand_orders_with_books [zero_books_order] = Inr (bss ! 0) \<and>
          expand_orders_with_books [two_books_order] = Inr (bss ! 1) \<and>
          length (bss ! 0) = 1 \<and> length (bss ! 1) = 2"
    by (intro exI [of _ bss]) simp
  with z t show ?thesis by simp
qed

text \<open>
  C5. For an order with at least one book and a start serial that parses to \<open>s\<close>,
  the expansion has \<open>number_of_books\<close> books; the first carries the start serial as it
  is; the serial of book \<open>i\<close> (from 0) reads as the integer \<open>s + i * increment\<close>,
  where the increment is the entry of \<open>SERIAL_INCREMENTS\<close> for the book style and 50
  without one; every book equals the first in all fields but the serial.
\<close>

theorem serial_arithmetic_sequence:
  assumes "1 \<le> number_of_books ord" and "py_int (cheque_start_serial ord) = Some s"
  shows "\<exists>books. expand_orders_with_books [ord] = Inr books \<and>
           length books = nat (number_of_books ord) \<and>
           eb_serial_number (books ! 0) = cheque_start_serial ord \<and>
           (\<forall>i<length books.
              py_int (eb_serial_number (books ! i)) =
                Some (s + int i * serial_increment (book_style ord)) \<and>
              books ! i = (books ! 0)\<lparr>eb_serial_number := eb_serial_number (books ! i)\<rparr>) \<and>
           serial_increment (book_style ord) =
             (case map_of SERIAL_INCREMENTS (book_style ord) of Some d \<Rightarrow> d | None \<Rightarrow> 50)"
proof -
  from assms(2) obtain books where b: "expand_order ord = Inr books"
    by (simp add: expand_order_Some)
  have len: "length books = nat (number_of_books ord)"
    using length_expand_order [OF b] assms(1) by simp
  then have pos: "0 < length books" using assms(1) by simp
  have first: "books ! 0 = order_to_dict ord (cheque_start_serial ord)"
    using nth_expand_order [OF assms(2) b pos] by simp
  have each: "\<forall>i<length books.
              py_int (eb_serial_number (books ! i)) =
                Some (s + int i * serial_increment (book_style ord)) \<and>
              books ! i = (books ! 0)\<lparr>eb_serial_number := eb_serial_number (books ! i)\<rparr>"
  proof (intro allI impI)
    fix i assume i: "i < length books"
    show "py_int (eb_serial_number (books ! i)) =
                Some (s + int i * serial_increment (book_style ord)) \<and>
              books ! i = (books ! 0)\<lparr>eb_serial_number := eb_serial_number (books ! i)\<rparr>"
    proof (cases "i = 0")
      case True
      with first assms(2) show ?thesis by simp
    next
      case False
      with nth_expand_order [OF assms(2) b i]
      have "books ! i = order_to_dict ord
                   (py_zfill 6 (py_str_int (s + int i * serial_increment (book_style ord))))"
        by simp
      then show ?thesis
        using first order_to_dict_update by (simp add: py_int_zfill_str)
    qed
  qed
  from b len first each show ?thesis
    by (simp add: expand_orders_single serial_increment_def)
qed

text \<open>
  The theorem at the order of two books of style 01 from serial 000001.
\<close>

theorem serial_arithmetic_sequence_witness:
  "1 \<le> number_of_books two_books_order \<and>
   py_int (cheque_start_serial two_books_order) = Some 1 \<and>
   serial_increment (book_style two_books_order) = 50 \<and>
   (\<exists>books. expand_orders_with_books [two_books_order] = Inr books \<and> length books = 2 \<and>
            eb_serial_number (books ! 0) = ''000001'' \<and>
            py_int (eb_serial_number (books ! 1)) = Some 51)"
proof -
  have n: "1 \<le> number_of_books two_books_order" "number_of_books two_books_order = 2"
    by (simp_all add: two_books_order_def)
  have c: "cheque_start_serial two_books_order = ''000001''" by (simp add: two_books_order_def)
  have t: "py_int (cheque_start_serial two_books_order) = Some 1" by code_simp
  have i: "serial_increment (book_style two_books_order) = 50" by code_simp
  from serial_arithmetic_sequence [OF n(1) t] obtain books where b:
    "expand_orders_with_books [two_books_order] = Inr books"
    "length books = nat (number_of_books two_books_order)"
    "eb_serial_number (books ! 0) = cheque_start_serial two_books_order"
    "\<forall>i<length books.
        py_int (eb_serial_number (books ! i)) =
          Some (1 + int i * serial_increment (book_style two_books_order)) \<and>
        books ! i = (books ! 0)\<lparr>eb_serial_number := eb_serial_number (books ! i)\<rparr>"
    by blast
  from b(2) n(2) have l: "length books = 2" by simp
  then have "1 < length books" by simp
  from b(4) [rule_format, OF this] i
  have "py_int (eb_serial_number (books ! 1)) = Some 51" by simp
  with b(1) b(3) c l
  have "\<exists>books. expand_orders_with_books [two_books_order] = Inr books \<and> length books = 2 \<and>
            eb_serial_number (books ! 0) = ''000001'' \<and>
            py_int (eb_serial_number (books ! 1)) = Some 51"
    by (intro exI [of _ books]) simp
  with n(1) t i show ?thesis by simp
qed

text \<open>
  C7, as amended. In a successful expansion of an order the first book carries the
  start serial unchanged; every later book has a serial of at least six characters, and
  of exactly six when its integer value lies between -99999 and 999999.
\<close>

theorem serial_number_width:
  assumes "expand_orders_with_books [ord] = Inr books"
  shows "eb_serial_number (books ! 0) = cheque_start_serial ord \<and>
         (\<forall>i. 0 < i \<and> i < length books \<longrightarrow>
            6 \<le> length (eb_serial_number (books ! i)) \<and>
            (\<forall>v. py_int (eb_serial_number (books ! i)) = Some v \<and> - 99999 \<le> v \<and> v \<le> 999999 \<longrightarrow>
                 length (eb_serial_number (books ! i)) = 6))"
proof -
  from assms have b: "expand_order ord = Inr books" by (simp add: expand_orders_single)
  then obtain s where s: "py_int (cheque_start_serial ord) = Some s"
    using expand_order_Inr_iff [of ord] by blast
  have pos: "0 < length books" using length_expand_order [OF b] by (cases books) simp_all
  have first: "eb_serial_number (books ! 0) = cheque_start_serial ord"
    using nth_expand_order [OF s b pos] by simp
  have rest: "\<forall>i. 0 < i \<and> i < length books \<longrightarrow>
            6 \<le> length (eb_serial_number (books ! i)) \<and>
            (\<forall>v. py_int (eb_serial_number (books ! i)) = Some v \<and> - 99999 \<le> v \<and> v \<le> 999999 \<longrightarrow>
                 length (eb_serial_number (books ! i)) = 6)"
  proof (intro allI impI)
    fix i assume i: "0 < i \<and> i < length books"
    let ?v = "s + int i * serial_increment (book_style ord)"
    from i nth_expand_order [OF s b, of i]
    have e: "eb_serial_number (books ! i) = py_zfill 6 (py_str_int ?v)" by simp
    have a: "6 \<le> length (eb_serial_number (books ! i))" by (simp add: e length_py_zfill)
    have c: "\<forall>v. py_int (eb_serial_number (books ! i)) = Some v \<and> - 99999 \<le> v \<and> v \<le> 999999 \<longrightarrow>
                 length (eb_serial_number (books ! i)) = 6"
    proof (intro allI impI)
      fix v assume v: "py_int (eb_serial_number (books ! i)) = Some v \<and> - 99999 \<le> v \<and> v \<le> 999999"
      then have "v = ?v" by (simp add: e py_int_zfill_str)
      with v have "length (py_str_int ?v) \<le> 6" by (simp add: length_py_str_int_le)
      then show "length (eb_serial_number (books ! i)) = 6" by (simp add: e length_py_zfill)
    qed
    from a c show "6 \<le> length (eb_serial_number (books ! i)) \<and>
            (\<forall>v. py_int (eb_serial_number (books ! i)) = Some v \<and> - 99999 \<le> v \<and> v \<le> 999999 \<longrightarrow>
                 length (eb_serial_number (books ! i)) = 6)" by simp
  qed
  from first rest show ?thesis by simp
qed

text \<open>
  The theorem at the second book of the order of two books from serial 000001.
\<close>

theorem serial_number_width_witness:
  "expand_orders_with_books [two_books_order] =
     Inr [order_to_dict two_books_order ''000001'', order_to_dict two_books_order ''000051''] \<and>
   py_int ''000051'' = Some 51 \<and>
   length (eb_serial_number (order_to_dict two_books_order ''000051'')) = 6"
proof -
  let ?books = "[order_to_dict two_books_order ''000001'', order_to_dict two_books_order ''000051'']"
  have e: "expand_orders_with_books [two_books_order] = Inr ?books" by code_simp
  have p: "py_int ''000051'' = Some 51" by code_simp
  have r: "0 < (1::nat) \<and> 1 < length ?books" by simp
  from serial_number_width [OF e, THEN conjunct2, rule_format, OF r, THEN conjunct2, rule_format, of 51]
    p
  have "length (eb_serial_number (order_to_dict two_books_order ''000051'')) = 6"
    by simp
  with e p show ?thesis by simp
qed

text \<open>
  C7 as stated fails: two books of 50 leaves from serial 999990 give the second book
  the serial 1000040, of seven characters.
\<close>

theorem serial_number_width_counterexample:
  "parse_order_record overflow_line = Some overflow_order \<and>
   expand_orders_with_books [overflow_order] =
     Inr [order_to_dict overflow_order ''999990'', order_to_dict overflow_order ''1000040''] \<and>
   length (eb_serial_number (order_to_dict overflow_order ''1000040'')) = 7"
proof -
  have p: "parse_order_record overflow_line = Some overflow_order" by code_simp
  have c: "cheque_start_serial overflow_order = ''999990''" "number_of_books overflow_order = 2"
    by (simp_all add: overflow_order_def)
  have i: "serial_increment (book_style overflow_order) = 50" by code_simp
  have "expand_order overflow_order =
     Inr [order_to_dict overflow_order ''999990'',
          order_to_dict overflow_order (py_zfill 6 (py_str_int (999990 + 50)))]"
    using int_999990 by (simp add: expand_order_Some c i Let_def)
  then have "expand_orders_with_books [overflow_order] =
     Inr [order_to_dict overflow_order ''999990'', order_to_dict overflow_order ''1000040'']"
    using str_1000040 by (simp add: expand_orders_single)
  with p show ?thesis by simp
qed

section \<open>Facts about the decoder\<close>

lemma space_isspace: "py_isspace (CHR '' '')"
  by (simp add: py_isspace_def)

lemma py_rstrip_spaces: "py_rstrip (s @ replicate n (CHR '' '')) = py_rstrip s"
proof -
  have "dropWhile py_isspace (replicate n (CHR '' '') @ rev s) = dropWhile py_isspace (rev s)"
    by (rule dropWhile_append2) (simp add: space_isspace)
  then show ?thesis by (simp add: py_rstrip_def)
qed

lemma py_rstrip_all_space: "\<forall>c\<in>set s. py_isspace c \<Longrightarrow> py_rstrip s = []"
  by (simp add: py_rstrip_def)

lemma py_strip_spaces: "py_strip (s @ replicate n (CHR '' '')) = py_strip s"
proof (cases "\<forall>c\<in>set s. py_isspace c")
  case True
  then have "py_lstrip (s @ replicate n (CHR '' '')) = []" "py_lstrip s = []"
    by (auto simp: py_lstrip_def space_isspace)
  then show ?thesis by (simp add: py_strip_def)
next
  case False
  then obtain c where "c \<in> set s" "\<not> py_isspace c" by blast
  then have "py_lstrip (s @ replicate n (CHR '' '')) = py_lstrip s @ replicate n (CHR '' '')"
    unfolding py_lstrip_def by (rule dropWhile_append1)
  then show ?thesis by (simp add: py_strip_def py_rstrip_spaces)
qed

lemma slice_spaces:
  "\<exists>m. slice a b (s @ replicate n (CHR '' '')) = slice a b s @ replicate m (CHR '' '')"
proof -
  have "slice a b (s @ replicate n (CHR '' '')) =
          slice a b s @ replicate (min (b - a - (length s - a)) (n - (a - length s))) (CHR '' '')"
    by (simp add: slice_def)
  then show ?thesis by blast
qed

lemma field_of_padded: "py_strip (slice a b (py_ljust w s)) = py_strip (slice a b s)"
proof -
  obtain m where "slice a b (s @ replicate (w - length s) (CHR '' '')) =
                    slice a b s @ replicate m (CHR '' '')"
    using slice_spaces by blast
  then show ?thesis by (simp add: py_ljust_def py_strip_spaces)
qed

lemma field_beyond_line: "length s \<le> a \<Longrightarrow> py_strip (slice a b (py_ljust w s)) = []"
proof -
  assume "length s \<le> a"
  then have "py_strip (slice a b s) = []"
    by (simp add: slice_def py_strip_def py_lstrip_def py_rstrip_def)
  then show ?thesis by (simp only: field_of_padded)
qed

lemma parse_order_record_None_iff:
  "parse_order_record line = None \<longleftrightarrow>
     py_strip (slice 26 30 line) \<noteq> [] \<and> py_int (py_strip (slice 26 30 line)) = None"
  by (simp add: parse_order_record_def Let_def field_of_padded split: option.splits)

lemma parse_order_record_padded:
  "length line < 210 \<Longrightarrow>
     parse_order_record line = parse_order_record (line @ replicate (210 - length line) (CHR '' ''))"
  by (simp add: parse_order_record_def py_ljust_def)

lemma parse_order_record_fields:
  "parse_order_record line = Some r \<Longrightarrow>
     cheque_start_serial r = py_strip (slice 30 36 line) \<and>
     delivery_branch_code r = py_strip (slice 169 174 line) \<and>
     delivery_branch_name r = py_strip (slice 174 210 line)"
  by (auto simp: parse_order_record_def Let_def field_of_padded split: option.splits if_splits)

section \<open>Claim about the decoder\<close>

text \<open>
  C9. \<open>_parse_order_record\<close> returns a value on every line, its one \<open>ValueError\<close>
  being caught. A line shorter than 210 characters is decoded exactly as the same line
  padded with spaces to 210 characters; it is rejected only when its number-of-books
  field is neither blank nor an integer, so never for its length; a line that ends
  before that field is decoded with one book, and the fields that lie beyond the end
  of the line are empty.
\<close>

theorem short_line_decoded_as_padded:
  assumes "length line < 210"
  shows "parse_order_record line =
           parse_order_record (line @ replicate (210 - length line) (CHR '' '')) \<and>
         ((parse_order_record line = None) =
            (py_strip (slice 26 30 line) \<noteq> [] \<and> py_int (py_strip (slice 26 30 line)) = None)) \<and>
         (length line \<le> 26 \<longrightarrow> (\<exists>r. parse_order_record line = Some r \<and> number_of_books r = 1)) \<and>
         (\<forall>r. parse_order_record line = Some r \<longrightarrow>
              (length line \<le> 30 \<longrightarrow> cheque_start_serial r = []) \<and>
              (length line \<le> 169 \<longrightarrow> delivery_branch_code r = []) \<and>
              (length line \<le> 174 \<longrightarrow> delivery_branch_name r = []))"
proof -
  have pad: "parse_order_record line =
           parse_order_record (line @ replicate (210 - length line) (CHR '' ''))"
    using assms by (rule parse_order_record_padded)
  have rej: "(parse_order_record line = None) =
            (py_strip (slice 26 30 line) \<noteq> [] \<and> py_int (py_strip (slice 26 30 line)) = None)"
    by (rule parse_order_record_None_iff)
  have blank: "length line \<le> 26 \<longrightarrow> (\<exists>r. parse_order_record line = Some r \<and> number_of_books r = 1)"
  proof
    assume "length line \<le> 26"
    then have "py_strip (slice 26 30 (py_ljust 210 line)) = []"
      by (rule field_beyond_line)
    with assms show "\<exists>r. parse_order_record line = Some r \<and> number_of_books r = 1"
      by (simp add: parse_order_record_def Let_def)
  qed
  have trail: "\<forall>r. parse_order_record line = Some r \<longrightarrow>
              (length line \<le> 30 \<longrightarrow> cheque_start_serial r = []) \<and>
              (length line \<le> 169 \<longrightarrow> delivery_branch_code r = []) \<and>
              (length line \<le> 174 \<longrightarrow> delivery_branch_name r = [])"
  proof (intro allI impI)
    fix r assume "parse_order_record line = Some r"
    from parse_order_record_fields [OF this]
    show "(length line \<le> 30 \<longrightarrow> cheque_start_serial r = []) \<and>
              (length line \<le> 169 \<longrightarrow> delivery_branch_code r = []) \<and>
              (length line \<le> 174 \<longrightarrow> delivery_branch_name r = [])"
      by (simp add: slice_def py_strip_def py_lstrip_def py_rstrip_def)
  qed
  from pad rej blank trail show ?thesis by blast
qed

text \<open>The theorem at a line of 36 characters.\<close>

theorem short_line_decoded_as_padded_witness:
  "length short_line < 210 \<and>
   parse_order_record short_line = Some short_order \<and>
   parse_order_record (short_line @ replicate 174 (CHR '' '')) = Some short_order"
proof -
  have l: "length short_line < 210" "210 - length short_line = 174"
    by (simp_all add: short_line_def)
  have p: "parse_order_record short_line = Some short_order" by code_simp
  from short_line_decoded_as_padded [OF l(1)] l(2) p
  have "parse_order_record (short_line @ replicate 174 (CHR '' '')) = Some short_order"
    by simp
  with l(1) p show ?thesis by simp
qed

section \<open>Facts about the order number of a filename\<close>



















section \<open>Claim about the order number of a filename\<close>




section \<open>Facts about the grouping and the packing lists\<close>

lemma map_of_grouped_append:
  "map_of (grouped_append g k v) =
     (map_of g)(k \<mapsto> (case map_of g k of None \<Rightarrow> [v] | Some vs \<Rightarrow> vs @ [v]))"
  by (induction g k v rule: grouped_append.induct) (auto simp: fun_eq_iff)

lemma keys_grouped_append:
  "map fst (grouped_append g k v) = (if k \<in> fst ` set g then map fst g else map fst g @ [k])"
  by (induction g k v rule: grouped_append.induct) (auto simp: image_iff)

lemma distinct_grouped_append:
  "distinct (map fst g) \<Longrightarrow> distinct (map fst (grouped_append g k v))"
  by (simp add: keys_grouped_append)

lemma set_keys_grouped_append:
  "fst ` set (grouped_append g k v) = insert k (fst ` set g)"
proof -
  have "set (map fst (grouped_append g k v)) = insert k (set (map fst g))"
    by (auto simp: keys_grouped_append)
  then show ?thesis by simp
qed

lemma distinct_group_loop:
  "distinct (map fst g) \<Longrightarrow> distinct (map fst (group_loop g books))"
  by (induction g books rule: group_loop.induct) (simp_all add: Let_def distinct_grouped_append)

lemma set_keys_group_loop:
  "fst ` set (group_loop g books) =
     fst ` set g \<union> {k. k \<noteq> [] \<and> k \<in> (\<lambda>b. py_strip (eb_delivery_branch_code b)) ` set books}"
  by (induction g books rule: group_loop.induct)
     (auto simp: Let_def set_keys_grouped_append)

lemma map_of_group_loop:
  "map_of (group_loop g books) k =
     (let new = filter (\<lambda>b. py_strip (eb_delivery_branch_code b) = k) books
      in if k = [] \<or> new = [] then map_of g k
         else Some ((case map_of g k of None \<Rightarrow> [] | Some vs \<Rightarrow> vs) @ new))"
proof (induction g books rule: group_loop.induct)
  case (1 grouped)
  show ?case by simp
next
  case (2 grouped book books)
  show ?case
  proof (cases "py_strip (eb_delivery_branch_code book) = []")
    case True
    with "2.IH"(2) show ?thesis by (auto simp: Let_def)
  next
    case False
    with "2.IH"(1) show ?thesis
      by (auto simp: Let_def map_of_grouped_append split: option.splits)
  qed
qed

lemma map_of_group_books:
  "k \<noteq> [] \<Longrightarrow> k \<in> (\<lambda>b. py_strip (eb_delivery_branch_code b)) ` set books \<Longrightarrow>
     map_of (group_books_by_delivery_branch books) k =
       Some (filter (\<lambda>b. py_strip (eb_delivery_branch_code b) = k) books)"
proof -
  assume k: "k \<noteq> []" "k \<in> (\<lambda>b. py_strip (eb_delivery_branch_code b)) ` set books"
  then have "filter (\<lambda>b. py_strip (eb_delivery_branch_code b) = k) books \<noteq> []"
    by (auto simp: filter_empty_conv)
  with k(1) show ?thesis
    by (simp add: group_books_by_delivery_branch_def map_of_group_loop Let_def)
qed

lemma keys_group_books:
  "set (map fst (group_books_by_delivery_branch books)) =
     {k. k \<noteq> [] \<and> k \<in> (\<lambda>b. py_strip (eb_delivery_branch_code b)) ` set books}"
  using set_keys_group_loop [of "[]" books] by (simp add: group_books_by_delivery_branch_def)

lemma distinct_keys_group_books:
  "distinct (map fst (group_books_by_delivery_branch books))"
  using distinct_group_loop [of "[]" books] by (simp add: group_books_by_delivery_branch_def)

lemma packing_lists_loop_ok:
  assumes "\<forall>k\<in>set ks. map_of g k = Some (sel k) \<and> sel k \<noteq> []"
  shows "\<exists>pls. packing_lists_loop g n d ks = Inr pls \<and>
           map pl_delivery_branch_code pls = ks \<and>
           (\<forall>pl\<in>set pls.
              pl_books pl = map book_entry (sel (pl_delivery_branch_code pl)) \<and>
              pl_total_books pl = length (sel (pl_delivery_branch_code pl)))"
  using assms
proof (induction ks)
  case Nil
  show ?case by simp
next
  case (Cons k ks)
  from Cons.prems obtain b0 bs where k: "map_of g k = Some (b0 # bs)" "sel k = b0 # bs"
    by (cases "sel k") auto
  from Cons.prems have "\<forall>k\<in>set ks. map_of g k = Some (sel k) \<and> sel k \<noteq> []" by simp
  from Cons.IH [OF this] obtain pls where pls:
    "packing_lists_loop g n d ks = Inr pls" "map pl_delivery_branch_code pls = ks"
    "\<forall>pl\<in>set pls. pl_books pl = map book_entry (sel (pl_delivery_branch_code pl)) \<and>
              pl_total_books pl = length (sel (pl_delivery_branch_code pl))"
    by blast
  let ?pl = "\<lparr> pl_bank_name = ''KCB Bank Ltd'', pl_order_number = n, pl_order_date = d,
                pl_delivery_branch_code = k,
                pl_delivery_branch_name = py_strip (eb_delivery_branch_name b0),
                pl_total_books = length (b0 # bs), pl_books = map book_entry (b0 # bs) \<rparr>"
  have 1: "packing_lists_loop g n d (k # ks) = Inr (?pl # pls)"
    using k(1) pls(1) by simp
  have 2: "map pl_delivery_branch_code (?pl # pls) = k # ks" using pls(2) by simp
  have 3: "\<forall>pl\<in>set (?pl # pls).
              pl_books pl = map book_entry (sel (pl_delivery_branch_code pl)) \<and>
              pl_total_books pl = length (sel (pl_delivery_branch_code pl))"
    using pls(3) k(2) by simp
  show ?case
    by (rule exI [of _ "?pl # pls"]) (intro conjI 1 2 3)
qed

lemma generate_packing_lists_ok:
  "\<exists>pls. generate_packing_lists books n d = Inr pls \<and>
         map pl_delivery_branch_code pls = sort (map fst (group_books_by_delivery_branch books)) \<and>
         (\<forall>pl\<in>set pls.
            pl_books pl =
              map book_entry
                (filter (\<lambda>b. py_strip (eb_delivery_branch_code b) = pl_delivery_branch_code pl) books) \<and>
            pl_total_books pl =
              length (filter (\<lambda>b. py_strip (eb_delivery_branch_code b) = pl_delivery_branch_code pl)
                        books))"
proof -
  let ?g = "group_books_by_delivery_branch books"
  let ?sel = "\<lambda>k. filter (\<lambda>b. py_strip (eb_delivery_branch_code b) = k) books"
  have "\<forall>k\<in>set (sort (map fst ?g)). map_of ?g k = Some (?sel k) \<and> ?sel k \<noteq> []"
  proof
    fix k assume "k \<in> set (sort (map fst ?g))"
    then have "k \<in> set (map fst ?g)" by simp
    then have k: "k \<noteq> []" "k \<in> (\<lambda>b. py_strip (eb_delivery_branch_code b)) ` set books"
      unfolding keys_group_books by simp_all
    from k(2) have "?sel k \<noteq> []" by (auto simp: filter_empty_conv)
    with map_of_group_books [OF k] show "map_of ?g k = Some (?sel k) \<and> ?sel k \<noteq> []" by simp
  qed
  from packing_lists_loop_ok [of "sort (map fst ?g)" ?g ?sel n d, OF this]
  show ?thesis by (simp add: generate_packing_lists_def Let_def)
qed

lemma sum_length_filter_keys:
  "distinct ks \<Longrightarrow>
     sum_list (map (\<lambda>k. length (filter (\<lambda>b. f b = k) bs)) ks) =
       length (filter (\<lambda>b. f b \<in> set ks) bs)"
proof (induction ks)
  case Nil
  show ?case by simp
next
  case (Cons k ks)
  then have k: "k \<notin> set ks" and d: "distinct ks" by simp_all
  have "length (filter (\<lambda>b. f b = k) bs) + length (filter (\<lambda>b. f b \<in> set ks) bs) =
          length (filter (\<lambda>b. f b \<in> set (k # ks)) bs)"
    using k by (induction bs) auto
  with Cons.IH [OF d] show ?case by simp
qed




lemma generate_packing_lists_keys:
  assumes "generate_packing_lists books n d = Inr pls"
  shows "sorted (map pl_delivery_branch_code pls) \<and> distinct (map pl_delivery_branch_code pls) \<and>
         set (map pl_delivery_branch_code pls) =
           {k. k \<noteq> [] \<and> k \<in> (\<lambda>b. py_strip (eb_delivery_branch_code b)) ` set books}"
proof -
  from generate_packing_lists_ok [of books n d] assms
  have "map pl_delivery_branch_code pls = sort (map fst (group_books_by_delivery_branch books))"
    by auto
  then show ?thesis
    using keys_group_books [of books] distinct_keys_group_books [of books] by simp
qed

section \<open>Claims about the packing lists\<close>



text \<open>
  C10. A book whose delivery branch code strips to the empty string belongs to no
  packing list: every packing list has a non-blank code and holds the entries of the
  books of that code only. The \<open>total_books\<close> of all packing lists sum to the number
  of books with a non-blank code, which is less than the number of books passed in
  exactly when some book has a blank code.
\<close>

theorem blank_branch_books_excluded:
  "\<exists>pls. generate_packing_lists books n d = Inr pls \<and>
     sum_list (map pl_total_books pls) =
       length (filter (\<lambda>b. py_strip (eb_delivery_branch_code b) \<noteq> []) books) \<and>
     (sum_list (map pl_total_books pls) < length books) =
       (\<exists>b\<in>set books. py_strip (eb_delivery_branch_code b) = []) \<and>
     (\<forall>pl\<in>set pls.
        pl_delivery_branch_code pl \<noteq> [] \<and>
        pl_books pl =
          map book_entry
            (filter (\<lambda>b. py_strip (eb_delivery_branch_code b) = pl_delivery_branch_code pl) books))"
proof -
  let ?code = "\<lambda>b. py_strip (eb_delivery_branch_code b)"
  from generate_packing_lists_ok [of books n d] obtain pls where p:
    "generate_packing_lists books n d = Inr pls"
    "\<forall>pl\<in>set pls.
        pl_books pl = map book_entry (filter (\<lambda>b. ?code b = pl_delivery_branch_code pl) books) \<and>
        pl_total_books pl = length (filter (\<lambda>b. ?code b = pl_delivery_branch_code pl) books)"
    by blast
  from generate_packing_lists_keys [OF p(1)]
  have k: "distinct (map pl_delivery_branch_code pls)"
    "set (map pl_delivery_branch_code pls) = {k. k \<noteq> [] \<and> k \<in> ?code ` set books}"
    by simp_all
  have m: "map pl_total_books pls =
          map (\<lambda>k. length (filter (\<lambda>b. ?code b = k) books)) (map pl_delivery_branch_code pls)"
    using p(2) by simp
  have "sum_list (map pl_total_books pls) =
          sum_list (map (\<lambda>k. length (filter (\<lambda>b. ?code b = k) books))
                      (map pl_delivery_branch_code pls))"
    by (simp only: m)
  also have "\<dots> = length (filter (\<lambda>b. ?code b \<in> set (map pl_delivery_branch_code pls)) books)"
    using k(1) by (rule sum_length_filter_keys)
  also have "\<dots> = length (filter (\<lambda>b. ?code b \<noteq> []) books)"
    unfolding k(2) by (rule arg_cong [of _ _ length], rule filter_cong) auto
  finally have s: "sum_list (map pl_total_books pls) = length (filter (\<lambda>b. ?code b \<noteq> []) books)" .
  have l: "(length (filter (\<lambda>b. ?code b \<noteq> []) books) < length books) =
             (\<exists>b\<in>set books. ?code b = [])"
    using length_filter_less [of _ books "\<lambda>b. ?code b \<noteq> []"]
    by (metis (mono_tags, lifting) filter_True less_irrefl)
  have e: "\<forall>pl\<in>set pls. pl_delivery_branch_code pl \<noteq> [] \<and>
        pl_books pl = map book_entry (filter (\<lambda>b. ?code b = pl_delivery_branch_code pl) books)"
  proof
    fix pl assume pl: "pl \<in> set pls"
    then have "pl_delivery_branch_code pl \<in> set (map pl_delivery_branch_code pls)" by simp
    then have "pl_delivery_branch_code pl \<noteq> []" unfolding k(2) by simp
    with p(2) pl show "pl_delivery_branch_code pl \<noteq> [] \<and>
        pl_books pl = map book_entry (filter (\<lambda>b. ?code b = pl_delivery_branch_code pl) books)"
      by simp
  qed
  have l': "(sum_list (map pl_total_books pls) < length books) =
       (\<exists>b\<in>set books. ?code b = [])"
    using s l by simp
  show ?thesis
    by (rule exI [of _ pls]) (intro conjI p(1) s l' e)
qed

text \<open>
  The theorem at the three example books, the third with a blank code: two packing
  lists of one book each.
\<close>

theorem blank_branch_books_excluded_witness:
  "py_strip (eb_delivery_branch_code (order_to_dict no_branch_order ''000001'')) = [] \<and>
   map_sum id (map pl_total_books)
     (generate_packing_lists example_books ''KCB-000618'' ''2026-03-09'') = Inr [1, 1] \<and>
   length example_books = 3 \<and>
   (\<exists>pls. generate_packing_lists example_books ''KCB-000618'' ''2026-03-09'' = Inr pls \<and>
          sum_list (map pl_total_books pls) < length example_books)"
proof -
  have b: "py_strip (eb_delivery_branch_code (order_to_dict no_branch_order ''000001'')) = []"
    by code_simp
  have t: "map_sum id (map pl_total_books)
     (generate_packing_lists example_books ''KCB-000618'' ''2026-03-09'') = Inr [1, 1]"
    by code_simp
  have l: "length example_books = 3" by (simp add: example_books_def)
  have m: "order_to_dict no_branch_order ''000001'' \<in> set example_books"
    by (simp add: example_books_def)
  from blank_branch_books_excluded [of example_books "''KCB-000618''" "''2026-03-09''"]
  obtain pls where p:
    "generate_packing_lists example_books ''KCB-000618'' ''2026-03-09'' = Inr pls"
    "(sum_list (map pl_total_books pls) < length example_books) =
       (\<exists>b\<in>set example_books. py_strip (eb_delivery_branch_code b) = [])"
    by blast
  from b m have "\<exists>b\<in>set example_books. py_strip (eb_delivery_branch_code b) = []" by blast
  with p(2) have "sum_list (map pl_total_books pls) < length example_books" by simp
  with p(1) have "\<exists>pls. generate_packing_lists example_books ''KCB-000618'' ''2026-03-09'' = Inr pls \<and>
          sum_list (map pl_total_books pls) < length example_books"
    by (intro exI [of _ pls]) simp
  with b t l show ?thesis by simp
qed

section \<open>The parser state across files\<close>

lemma parse_lines_acc: "parse_lines ords lines = ords @ parse_lines [] lines"
proof (induction lines arbitrary: ords)
  case Nil
  show ?case by simp
next
  case (Cons line lines)
  have a: "\<And>ord. parse_lines ([] @ [ord]) lines = [ord] @ parse_lines [] lines"
    using Cons.IH [of "[_]"] by simp
  show ?case
    using Cons.IH [of ords] Cons.IH [of "ords @ [_]"] a
    by (simp split: option.splits)
qed

lemma parse_file_orders:
  "fs file_path = Some raw \<Longrightarrow>
     orders (fst (parse_file now fs p file_path)) =
       orders p @ parse_lines [] (map rstrip_newlines raw)"
  using parse_lines_acc [of "orders p" "map rstrip_newlines raw"]
  by (simp add: parse_file_def extract_order_number_from_filename_def Let_def
      split: option.splits sum.splits)

lemma parse_file_stays_failed:
  assumes "expand_orders_with_books (orders p) = Inl e" and "fs file_path = Some raw"
  shows "snd (parse_file now fs p file_path) = Inl e"
proof -
  have "expand_orders_with_books (orders p @ parse_lines [] (map rstrip_newlines raw)) = Inl e"
    using assms(1) by (simp add: expand_orders_append)
  then have "expand_orders_with_books (parse_lines (orders p) (map rstrip_newlines raw)) = Inl e"
    using parse_lines_acc [of "orders p" "map rstrip_newlines raw"] by simp
  with assms(2) show ?thesis
    by (simp add: parse_file_def extract_order_number_from_filename_def Let_def
        split: option.splits)
qed

text \<open>
  C2. The claim does not hold of the code. \<open>parse_file\<close> appends to \<open>self.orders\<close> and
  never resets it, and \<open>PackingListOrchestrator\<close> sends every file of a batch through
  the one parser made in its \<open>__init__\<close>. Processed alone, \<open>b.dat\<close> gives one packing
  list, for branch 00100. Processed after \<open>a.dat\<close>, it gives two: the output for
  \<open>b.dat\<close> holds the two books of \<open>a.dat\<close> for branch 01320 as well.
\<close>

theorem orchestrator_parser_keeps_orders:
  "map (map pl_delivery_branch_code)
     (process_multiple_files example_clock example_fs [''b.dat'']) = [[''00100'']] \<and>
   map (map pl_delivery_branch_code)
     (process_multiple_files example_clock example_fs [''a.dat'', ''b.dat'']) =
     [[''01320''], [''00100'', ''01320'']] \<and>
   map (map pl_total_books)
     (process_multiple_files example_clock example_fs [''a.dat'', ''b.dat'']) = [[2], [1, 2]]"
proof -
  have "map (map pl_delivery_branch_code)
     (process_multiple_files example_clock example_fs [''b.dat'']) = [[''00100'']]"
    by code_simp
  moreover have "map (map pl_delivery_branch_code)
     (process_multiple_files example_clock example_fs [''a.dat'', ''b.dat'']) =
     [[''01320''], [''00100'', ''01320'']]"
    by code_simp
  moreover have "map (map pl_total_books)
     (process_multiple_files example_clock example_fs [''a.dat'', ''b.dat'']) = [[2], [1, 2]]"
    by code_simp
  ultimately show ?thesis by simp
qed

end
